theory Spec2Isabelle
  imports Main "HOL-Library.Sublist"
begin

section \<open>The platform values the router works with\<close>

text \<open>
  The router (\<^verbatim>\<open>src/router.mts\<close>) is written against the Web platform: \<^verbatim>\<open>Request\<close>,
  \<^verbatim>\<open>Response\<close>, \<^verbatim>\<open>Headers\<close>, \<^verbatim>\<open>URLPattern\<close>, promises and streams. Each of them is
  modelled by the part of its standard behaviour the router relies on.

  A header collection is its header list: \<^verbatim>\<open>append\<close> adds an entry at the end and never
  touches an entry that is already there.
\<close>

type_synonym header_list = "(string \<times> string) list"

definition append_header :: "header_list \<Rightarrow> string \<Rightarrow> string \<Rightarrow> header_list" where
  "append_header hs k v = hs @ [(k, v)]"

text \<open>
  The writable side of the \<^verbatim>\<open>TransformStream\<close> of a document response, as the client
  sees it: the chunks written so far, whether the stream is still open, was closed
  (the body is complete) or is errored (the body is broken off), and how often
  \<^verbatim>\<open>writer.close()\<close> was called.
\<close>

datatype chan_state = Open | Closed | Errored

record channel =
  written :: "string list"
  chan_state :: chan_state
  close_calls :: nat

datatype 'v body = Null_body | Json_body 'v | Text_body string | Stream_body channel

record 'v response =
  status :: nat
  resp_headers :: header_list
  body :: "'v body"

text \<open>
  What a \<^verbatim>\<open>throw\<close> can carry: a \<^verbatim>\<open>Response\<close>, an \<^verbatim>\<open>Error\<close> with its message, or any
  other value.
\<close>

datatype 'v thrown = Thrown_response "'v response" | Thrown_error string | Thrown_other

text \<open>
  What a loader or an action hands back: \<^verbatim>\<open>undefined\<close>, a \<^verbatim>\<open>Response\<close>, or data.
\<close>

datatype 'v jsval = Undefined | Resp "'v response" | Data 'v

text \<open>
  A promise settles at some moment of a logical clock, fulfilled or rejected, or never
  settles. A call either throws before it returns, or returns a promise (a plain value
  is a promise fulfilled at once).
\<close>

datatype ('v, 'a) promise = Settles nat "'v thrown + 'a" | Never_settles

datatype ('v, 'a) call = Throws_sync "'v thrown" | Returns "('v, 'a) promise"

text \<open>
  The outcome of awaiting: a value, an exception, or no continuation at all.
\<close>

datatype ('v, 'a) outcome = Ok 'a | Thrown "'v thrown" | Hangs

fun await_call :: "('v, 'a) call \<Rightarrow> ('v, 'a) outcome" where
  "await_call (Throws_sync e) = Thrown e"
| "await_call (Returns (Settles t (Inl e))) = Thrown e"
| "await_call (Returns (Settles t (Inr a))) = Ok a"
| "await_call (Returns Never_settles) = Hangs"

section \<open>Html values (\<^verbatim>\<open>runtime/node.mts\<close>)\<close>

text \<open>
  An \<^verbatim>\<open>Html\<close> value wraps an asynchronous generator of strings. It is modelled by the
  chunks the generator yields, finitely many, and by how it ends: it returns, it throws,
  or it waits for ever on a promise that never settles.
\<close>

datatype 'v ending = Done | Fails "'v thrown" | Stalls

datatype 'v html = Html (chunks: "string list") (ending: "'v ending")

datatype 'v into_arg =
    Of_string string
  | Of_generator "'v html"
  | Of_promise "('v, string + 'v html) promise"

fun into :: "'v into_arg \<Rightarrow> 'v html" where
  "into (Of_string s) = Html [s] Done"
| "into (Of_generator g) = g"
| "into (Of_promise (Settles t (Inl e))) = Html [] (Fails e)"
| "into (Of_promise (Settles t (Inr (Inl s)))) = Html [s] Done"
| "into (Of_promise (Settles t (Inr (Inr h)))) = h"
| "into (Of_promise Never_settles) = Html [] Stalls"

text \<open>
  \<^verbatim>\<open>toReadableStream\<close> pulls the generator and enqueues every chunk, then closes the
  stream, or errors it when the generator throws. Erroring a stream drops the chunks
  that are still queued, so a reader gets only those it had dequeued by then:
  \<open>dequeued\<close> says how many that is.
\<close>

datatype 'v readable = Readable (queue: "string list") (finish: "'v ending")

fun toReadableStream :: "nat \<Rightarrow> 'v html \<Rightarrow> 'v readable" where
  "toReadableStream dequeued (Html cs Done) = Readable cs Done"
| "toReadableStream dequeued (Html cs (Fails e)) = Readable (take dequeued cs) (Fails e)"
| "toReadableStream dequeued (Html cs Stalls) = Readable cs Stalls"

section \<open>Requests, modules, fragments and routes (\<^verbatim>\<open>router.mts\<close>)\<close>

text \<open>
  Of a \<^verbatim>\<open>Request\<close>: its URL, its method (in upper case, as \<^verbatim>\<open>Request\<close> keeps it) and its
  headers (names in lower case, as \<^verbatim>\<open>Headers\<close> keeps them). The context of a call is the
  request, the groups of the match and the remaining arguments of \<^verbatim>\<open>handle\<close>.
\<close>

record request =
  url :: string
  req_method :: string
  req_headers :: header_list

record 'e ctx =
  request :: request
  params :: "(string \<times> string) list"
  context_args :: 'e

text \<open>
  What a \<^verbatim>\<open>headers\<close> function hands back: nothing (\<^verbatim>\<open>undefined\<close> or \<^verbatim>\<open>null\<close>), a
  \<^verbatim>\<open>Headers\<close> object (the entries its iteration gives), or a record whose values may be
  \<^verbatim>\<open>undefined\<close> or \<^verbatim>\<open>null\<close> (\<open>None\<close>).
\<close>

datatype headers_value =
    No_headers
  | Headers_object header_list
  | Record_object "(string \<times> string option) list"

text \<open>
  A component gets its loader data and its children; it throws, or returns an element or
  a promise of an element or of a string.
\<close>

datatype 'v rendered = Element "'v html" | Promised "('v, string + 'v html) promise"

type_synonym ('v, 'e) loader = "'e ctx \<Rightarrow> ('v, 'v jsval) call"
type_synonym ('v, 'e) action = "'e ctx \<Rightarrow> ('v, 'v jsval) call"
type_synonym 'v renderer = "'v jsval \<Rightarrow> 'v html \<Rightarrow> 'v thrown + 'v rendered"
type_synonym ('v, 'e) headers_fn = "'e ctx \<Rightarrow> 'v jsval \<Rightarrow> ('v, headers_value) call"

text \<open>
  The types \<^verbatim>\<open>mod\<close> and \<^verbatim>\<open>fragment\<close>. (The names \<open>mod\<close>, \<open>id\<close> and \<open>default\<close> are taken in
  HOL, hence \<open>module\<close>, \<open>frag_mod\<close>, \<open>frag_id\<close> and \<open>default_export\<close>.)
\<close>

record ('v, 'e) module =
  loader :: "('v, 'e) loader option"
  action :: "('v, 'e) action option"
  default_export :: "'v renderer option"
  headers :: "('v, 'e) headers_fn option"

record ('v, 'e) fragment =
  frag_id :: string
  frag_mod :: "('v, 'e) module"
  frag_params :: "string list option"

text \<open>
  A \<^verbatim>\<open>URLPattern\<close> is taken by its \<^verbatim>\<open>exec\<close>: no match, or the groups of the path name.
\<close>

type_synonym pattern = "string \<Rightarrow> (string \<times> string) list option"

type_synonym ('v, 'e) route = "pattern \<times> ('v, 'e) fragment list"

text \<open>The loop over the route table at the head of \<^verbatim>\<open>handle\<close>.\<close>

fun match_routes ::
  "('v, 'e) route list \<Rightarrow> string \<Rightarrow> (('v, 'e) fragment list \<times> (string \<times> string) list) option" where
  "match_routes [] urlStr = None"
| "match_routes ((pattern, frags) # routes) urlStr =
     (case pattern urlStr of
        Some groups \<Rightarrow> Some (frags, groups)
      | None \<Rightarrow> match_routes routes urlStr)"

section \<open>Data responses\<close>

text \<open>
  \<^verbatim>\<open>Response.json\<close> gives a 200 response with the JSON text of the value; for
  \<^verbatim>\<open>undefined\<close>, which has no JSON text, it throws a \<^verbatim>\<open>TypeError\<close> (the message is the
  platform's). A \<^verbatim>\<open>Response\<close> object has no enumerable property of its own and
  serialises to an empty object.
\<close>

definition json_type_error :: string where
  "json_type_error = ''Value is not JSON serializable''"

fun Response_json :: "'v jsval \<Rightarrow> ('v, 'v response) outcome" where
  "Response_json Undefined = Thrown (Thrown_error json_type_error)"
| "Response_json (Data v) =
     Ok \<lparr>status = 200, resp_headers = [(''content-type'', ''application/json'')],
         body = Json_body v\<rparr>"
| "Response_json (Resp r) =
     Ok \<lparr>status = 200, resp_headers = [(''content-type'', ''application/json'')],
         body = Text_body ''{}''\<rparr>"

definition dataResponse ::
  "('e ctx \<Rightarrow> ('v, 'v jsval) call) \<Rightarrow> 'e ctx \<Rightarrow> ('v, 'v response) outcome" where
  "dataResponse f ctx =
     (case await_call (f ctx) of
        Thrown e \<Rightarrow> Thrown e
      | Hangs \<Rightarrow> Hangs
      | Ok v \<Rightarrow> (case v of Resp r \<Rightarrow> Ok r | _ \<Rightarrow> Response_json v))"

section \<open>Loaders: \<^verbatim>\<open>Promise.all\<close> over the chain\<close>

text \<open>
  \<^verbatim>\<open>fragments.map((fragment) => fragment.mod.loader?.(ctx))\<close> calls the loaders one after
  the other; a loader that throws before it returns ends the \<^verbatim>\<open>map\<close> there. A fragment
  with no loader gives \<^verbatim>\<open>undefined\<close>.
\<close>

definition call_loader :: "'e ctx \<Rightarrow> ('v, 'e) fragment \<Rightarrow> ('v, 'v jsval) call" where
  "call_loader ctx fragment =
     (case loader (frag_mod fragment) of
        None \<Rightarrow> Returns (Settles 0 (Inr Undefined))
      | Some l \<Rightarrow> l ctx)"

fun map_calls :: "('v, 'a) call list \<Rightarrow> 'v thrown + ('v, 'a) promise list" where
  "map_calls [] = Inr []"
| "map_calls (Throws_sync e # cs) = Inl e"
| "map_calls (Returns p # cs) = (case map_calls cs of Inl e \<Rightarrow> Inl e | Inr ps \<Rightarrow> Inr (p # ps))"

text \<open>
  \<^verbatim>\<open>Promise.all\<close> rejects with the reason of the promise that rejects first (of two that
  reject at the same moment, the one that stands first); it is fulfilled with the
  values, in the order of the promises, once all are fulfilled; otherwise it never
  settles.
\<close>

fun earliest :: "(nat \<times> 'a) list \<Rightarrow> (nat \<times> 'a) option" where
  "earliest [] = None"
| "earliest (x # xs) =
     (case earliest xs of
        None \<Rightarrow> Some x
      | Some y \<Rightarrow> if fst y < fst x then Some y else Some x)"

fun rejections :: "('v, 'a) promise list \<Rightarrow> (nat \<times> 'v thrown) list" where
  "rejections [] = []"
| "rejections (Settles t (Inl e) # ps) = (t, e) # rejections ps"
| "rejections (Settles t (Inr a) # ps) = rejections ps"
| "rejections (Never_settles # ps) = rejections ps"

fun fulfilments :: "('v, 'a) promise list \<Rightarrow> 'a list option" where
  "fulfilments [] = Some []"
| "fulfilments (Settles t (Inr a) # ps) = map_option ((#) a) (fulfilments ps)"
| "fulfilments (Settles t (Inl e) # ps) = None"
| "fulfilments (Never_settles # ps) = None"

definition Promise_all :: "('v, 'a) promise list \<Rightarrow> ('v, 'a list) outcome" where
  "Promise_all ps =
     (case earliest (rejections ps) of
        Some (t, e) \<Rightarrow> Thrown e
      | None \<Rightarrow> (case fulfilments ps of None \<Rightarrow> Hangs | Some vs \<Rightarrow> Ok vs))"

definition run_loaders :: "('v, 'e) fragment list \<Rightarrow> 'e ctx \<Rightarrow> ('v, 'v jsval list) outcome" where
  "run_loaders fragments ctx =
     (case map_calls (map (call_loader ctx) fragments) of
        Inl e \<Rightarrow> Thrown e
      | Inr ps \<Rightarrow> Promise_all ps)"

section \<open>\<^verbatim>\<open>mergeFragmentHeaders\<close>\<close>

text \<open>\<^verbatim>\<open>loaders[i]\<close>: \<^verbatim>\<open>undefined\<close> beyond the end of the array.\<close>

definition at_index :: "'v jsval list \<Rightarrow> nat \<Rightarrow> 'v jsval" where
  "at_index loaders i = (if i < length loaders then loaders ! i else Undefined)"

text \<open>
  The entries the inner \<^verbatim>\<open>for ... of\<close> runs over: those of the \<^verbatim>\<open>Headers\<close> object, or
  \<^verbatim>\<open>Object.entries\<close> of the record.
\<close>

fun entries_of :: "headers_value \<Rightarrow> (string \<times> string option) list" where
  "entries_of No_headers = []"
| "entries_of (Headers_object hs) = map (\<lambda>(k, v). (k, Some v)) hs"
| "entries_of (Record_object es) = es"

text \<open>The inner loop: \<^verbatim>\<open>if (v != null) headers.append(k, v)\<close>.\<close>

fun append_entries :: "header_list \<Rightarrow> (string \<times> string option) list \<Rightarrow> header_list" where
  "append_entries hs [] = hs"
| "append_entries hs ((k, None) # es) = append_entries hs es"
| "append_entries hs ((k, Some v) # es) = append_entries (append_header hs k v) es"

text \<open>
  The outer loop, from index \<open>i\<close> on: the fragments still to visit are the first
  argument, \<open>fragments[i]\<close> at their head. Header names and values are taken to be
  valid ones, which \<^verbatim>\<open>append\<close> accepts.
\<close>

fun merge_loop ::
  "('v, 'e) fragment list \<Rightarrow> nat \<Rightarrow> header_list \<Rightarrow> 'e ctx \<Rightarrow> 'v jsval list
    \<Rightarrow> ('v, header_list) outcome" where
  "merge_loop [] i hs ctx loaders = Ok hs"
| "merge_loop (fragment # rest) i hs ctx loaders =
     (case headers (frag_mod fragment) of
        None \<Rightarrow> merge_loop rest (Suc i) hs ctx loaders
      | Some headers_fn \<Rightarrow>
          (case await_call (headers_fn ctx (at_index loaders i)) of
             Thrown e \<Rightarrow> Thrown e
           | Hangs \<Rightarrow> Hangs
           | Ok h \<Rightarrow>
               (case h of
                  No_headers \<Rightarrow> merge_loop rest (Suc i) hs ctx loaders
                | _ \<Rightarrow> merge_loop rest (Suc i) (append_entries hs (entries_of h)) ctx loaders)))"

definition mergeFragmentHeaders ::
  "header_list \<Rightarrow> 'e ctx \<Rightarrow> ('v, 'e) fragment list \<Rightarrow> 'v jsval list
    \<Rightarrow> ('v, header_list) outcome" where
  "mergeFragmentHeaders hs ctx fragments loaders = merge_loop fragments 0 hs ctx loaders"

section \<open>Composing the chain: \<^verbatim>\<open>fragments.reduceRight\<close>\<close>

text \<open>
  The callback of \<^verbatim>\<open>reduceRight\<close> runs from the last fragment to the first; \<open>index\<close> is
  the index of the head of the list.
\<close>

fun reduceRight ::
  "('v, 'e) fragment list \<Rightarrow> nat \<Rightarrow> 'v jsval list \<Rightarrow> 'v html \<Rightarrow> 'v thrown + 'v html" where
  "reduceRight [] index loaders init = Inr init"
| "reduceRight (frag # rest) index loaders init =
     (case reduceRight rest (Suc index) loaders init of
        Inl e \<Rightarrow> Inl e
      | Inr acc \<Rightarrow>
          (case default_export (frag_mod frag) of
             None \<Rightarrow> Inr acc
           | Some Component \<Rightarrow>
               (case Component (at_index loaders index) acc of
                  Inl e \<Rightarrow> Inl e
                | Inr (Element res) \<Rightarrow> Inr res
                | Inr (Promised res) \<Rightarrow> Inr (into (Of_promise res)))))"

section \<open>\<^verbatim>\<open>startStreaming\<close>: the pump\<close>

text \<open>
  The client takes \<open>accepts\<close> writes before its connection breaks (\<open>None\<close>: it takes
  them all). A write on a stream that is not open, or one the client does not take, is
  rejected, and an open stream is errored by it. \<^verbatim>\<open>close\<close> closes an open stream and is
  rejected on any other.
\<close>

definition stream_error :: "'v thrown" where
  "stream_error = Thrown_error ''stream error''"

definition writer_write :: "nat option \<Rightarrow> string \<Rightarrow> channel \<Rightarrow> 'v thrown option \<times> channel" where
  "writer_write accepts chunk ch =
     (if chan_state ch = Open \<and> (case accepts of None \<Rightarrow> True | Some n \<Rightarrow> length (written ch) < n)
      then (None, ch\<lparr>written := written ch @ [chunk]\<rparr>)
      else (Some stream_error,
            ch\<lparr>chan_state := (if chan_state ch = Open then Errored else chan_state ch)\<rparr>))"

definition writer_close :: "channel \<Rightarrow> 'v thrown option \<times> channel" where
  "writer_close ch =
     (if chan_state ch = Open
      then (None, ch\<lparr>chan_state := Closed, close_calls := Suc (close_calls ch)\<rparr>)
      else (Some stream_error, ch\<lparr>close_calls := Suc (close_calls ch)\<rparr>))"

text \<open>The \<^verbatim>\<open>while (true)\<close> loop: one \<^verbatim>\<open>reader.read()\<close> and one write a round.\<close>

fun pump ::
  "nat option \<Rightarrow> string list \<Rightarrow> 'v ending \<Rightarrow> channel \<Rightarrow> ('v, unit) outcome \<times> channel" where
  "pump accepts [] Done ch = (Ok (), ch)"
| "pump accepts [] (Fails e) ch = (Thrown e, ch)"
| "pump accepts [] Stalls ch = (Hangs, ch)"
| "pump accepts (chunk # q) fin ch =
     (case writer_write accepts chunk ch of
        (Some e, ch') \<Rightarrow> (Thrown e, ch')
      | (None, ch') \<Rightarrow> pump accepts q fin ch')"

definition preamble :: string where
  "preamble = ''<!doctype html>''"

text \<open>
  \<^verbatim>\<open>try { ... } finally { reader.releaseLock(); await writer.close(); }\<close>: the \<^verbatim>\<open>finally\<close>
  block runs however the \<^verbatim>\<open>try\<close> block ends, unless that never ends; when \<^verbatim>\<open>close\<close> is
  rejected, its reason replaces the one of the \<^verbatim>\<open>try\<close> block.
\<close>

definition startStreaming ::
  "nat option \<Rightarrow> 'v readable \<Rightarrow> channel \<Rightarrow> ('v, unit) outcome \<times> channel" where
  "startStreaming accepts rd ch0 =
     (let (r, ch) =
        (case writer_write accepts preamble ch0 of
           (Some e, ch1) \<Rightarrow> (Thrown e, ch1)
         | (None, ch1) \<Rightarrow> pump accepts (queue rd) (finish rd) ch1)
      in case r of
           Hangs \<Rightarrow> (Hangs, ch)
         | _ \<Rightarrow>
             (case writer_close ch of
                (Some e, ch') \<Rightarrow> (Thrown e, ch')
              | (None, ch') \<Rightarrow> (r, ch')))"

definition new_channel :: channel where
  "new_channel = \<lparr>written = [], chan_state = Open, close_calls = 0\<rparr>"

section \<open>\<^verbatim>\<open>routeResponse\<close> and \<^verbatim>\<open>handle\<close>\<close>

text \<open>What the surroundings of one document response decide.\<close>

record transport =
  accepts :: "nat option"
  dequeued :: nat

text \<open>
  The pump runs detached (\<^verbatim>\<open>waitUntil\<close>); the body of the response is the stream it
  feeds, given here by what the pump makes of it.
\<close>

definition routeResponse ::
  "transport \<Rightarrow> ('v, 'e) fragment list \<Rightarrow> 'e ctx \<Rightarrow> ('v, 'v response) outcome" where
  "routeResponse tr fragments ctx =
     (case run_loaders fragments ctx of
        Thrown e \<Rightarrow> Thrown e
      | Hangs \<Rightarrow> Hangs
      | Ok loaders \<Rightarrow>
          (case mergeFragmentHeaders [(''Content-Type'', ''text/html'')] ctx fragments loaders of
             Thrown e \<Rightarrow> Thrown e
           | Hangs \<Rightarrow> Hangs
           | Ok hs \<Rightarrow>
               (case reduceRight fragments 0 loaders (into (Of_string [])) of
                  Inl e \<Rightarrow> Thrown e
                | Inr node \<Rightarrow>
                    Ok \<lparr>status = 200, resp_headers = hs,
                        body = Stream_body
                          (snd (startStreaming (accepts tr)
                                 (toReadableStream (dequeued tr) node) new_channel))\<rparr>)))"

definition has_header :: "header_list \<Rightarrow> string \<Rightarrow> bool" where
  "has_header hs name = (name \<in> set (map fst hs))"

definition null_response :: "nat \<Rightarrow> 'v response" where
  "null_response code = \<lparr>status = code, resp_headers = [], body = Null_body\<rparr>"

text \<open>
  The \<^verbatim>\<open>catch\<close> block of \<^verbatim>\<open>handle\<close>; next to the response stands what went to
  \<^verbatim>\<open>console.error\<close>. A \<^verbatim>\<open>try\<close> block that never ends has no response.
\<close>

fun catch_block :: "('v, 'v response) outcome \<Rightarrow> ('v response \<times> string list) option" where
  "catch_block (Ok r) = Some (r, [])"
| "catch_block (Thrown (Thrown_response e)) = Some (e, [])"
| "catch_block (Thrown (Thrown_error message)) = Some (null_response 500, [message])"
| "catch_block (Thrown Thrown_other) = Some (null_response 500, [])"
| "catch_block Hangs = None"

text \<open>\<^verbatim>\<open>fragments[fragments.length - 1]?.mod\<close>\<close>

definition leaf_of :: "('v, 'e) fragment list \<Rightarrow> ('v, 'e) module option" where
  "leaf_of fragments = (if fragments = [] then None else Some (frag_mod (last fragments)))"

definition handle ::
  "('v, 'e) route list \<Rightarrow> transport \<Rightarrow> request \<Rightarrow> 'e \<Rightarrow> ('v response \<times> string list) option" where
  "handle routes tr req args =
     (case match_routes routes (url req) of
        None \<Rightarrow> Some (null_response 404, [])
      | Some (frags, groups) \<Rightarrow>
          (let fragments =
                 (if has_header (req_headers req) ''fx-request'' then drop 1 frags else frags);
               ctx = \<lparr>request = req, params = groups, context_args = args\<rparr>;
               leaf = leaf_of fragments
           in catch_block
               (case (if req_method req = ''GET'' then Option.bind leaf default_export else None) of
                  Some Component \<Rightarrow> routeResponse tr fragments ctx
                | None \<Rightarrow>
               (case (if req_method req = ''GET'' then Option.bind leaf loader else None) of
                  Some l \<Rightarrow> dataResponse l ctx
                | None \<Rightarrow>
               (case (if req_method req \<noteq> ''GET'' then Option.bind leaf action else None) of
                  Some a \<Rightarrow> dataResponse a ctx
                | None \<Rightarrow> Ok (null_response 404))))))"

section \<open>Suspense (\<^verbatim>\<open>runtime/suspense.tsx\<close>)\<close>

text \<open>
  The map \<^verbatim>\<open>suspended\<close> of the module: one for the whole process. A \<^verbatim>\<open>Map\<close> iterates in
  the order of insertion; \<^verbatim>\<open>set\<close> on a key that is there replaces the value in place.
  The promise of an entry is fulfilled with the pair of its own key and the markup; the
  key being known, only the markup is kept.
\<close>

type_synonym 'v suspended = "(string \<times> ('v, string) promise) list"

fun map_set :: "'v suspended \<Rightarrow> string \<Rightarrow> ('v, string) promise \<Rightarrow> 'v suspended" where
  "map_set [] k p = [(k, p)]"
| "map_set ((k', p') # m) k p = (if k' = k then (k, p) # m else (k', p') # map_set m k p)"

definition map_delete :: "'v suspended \<Rightarrow> string \<Rightarrow> 'v suspended" where
  "map_delete m k = filter (\<lambda>entry. fst entry \<noteq> k) m"

text \<open>
  \<^verbatim>\<open>await (await el).toPromise()\<close>: the text of the element once it is there, all of it.
  The moment is that of the element; reading its text takes no time of the clock.
\<close>

fun materialise :: "('v, 'v html) promise \<Rightarrow> ('v, string) promise" where
  "materialise Never_settles = Never_settles"
| "materialise (Settles t (Inl e)) = Settles t (Inl e)"
| "materialise (Settles t (Inr (Html cs Done))) = Settles t (Inr (concat cs))"
| "materialise (Settles t (Inr (Html cs (Fails e)))) = Settles t (Inl e)"
| "materialise (Settles t (Inr (Html cs Stalls))) = Never_settles"

text \<open>
  The children of a \<^verbatim>\<open>Suspense\<close>: a function (given by what calling it does) or an
  element, possibly a promise of one.
\<close>

datatype 'v children = Function "('v, 'v html) call" | Node "('v, 'v html) promise"

definition nl :: string where "nl = [CHR 0x0A]"
definition dq :: string where "dq = [CHR 0x22]"
definition sq :: string where "sq = [CHR 0x27]"

text \<open>
  The element \<^verbatim>\<open><As id={id}>{fallback}</As>\<close> as \<^verbatim>\<open>jsx\<close> renders it, for a \<^verbatim>\<open>Suspense\<close>
  with no further props.
\<close>

definition voidElements :: "string list" where
  "voidElements =
     [''area'', ''base'', ''br'', ''col'', ''embed'', ''hr'', ''img'', ''input'', ''link'',
      ''meta'', ''param'', ''source'', ''track'', ''wbr'']"

definition sanitize :: "string \<Rightarrow> string" where
  "sanitize s = concat (map (\<lambda>c. if c = CHR 0x22 then ''&quot;'' else [c]) s)"

definition boundary :: "string \<Rightarrow> string \<Rightarrow> 'v html \<Rightarrow> 'v html" where
  "boundary As ident fallback =
     Html ([''<'' @ As @ '' id='' @ dq @ sanitize ident @ dq @ '' '' @ ''>''] @ chunks fallback
            @ (case ending fallback of
                 Done \<Rightarrow> (if As \<in> set voidElements then [] else [''</'' @ As @ ''>''])
               | _ \<Rightarrow> []))
          (ending fallback)"

text \<open>
  \<^verbatim>\<open>Suspense\<close>: \<open>uuid\<close> is what \<^verbatim>\<open>crypto.randomUUID()\<close> gives. A children function that
  throws when called makes \<^verbatim>\<open>Suspense\<close> throw, before anything is registered.
\<close>

definition Suspense ::
  "string \<Rightarrow> 'v html \<Rightarrow> string \<Rightarrow> 'v children \<Rightarrow> 'v suspended
    \<Rightarrow> 'v thrown + 'v html \<times> 'v suspended" where
  "Suspense uuid fallback As children suspended =
     (let ident = ''suspense-'' @ uuid in
      case (case children of
              Function (Throws_sync e) \<Rightarrow> Inl e
            | Function (Returns el) \<Rightarrow> Inr (materialise el)
            | Node el \<Rightarrow> Inr (materialise el)) of
        Inl e \<Rightarrow> Inl e
      | Inr promise \<Rightarrow> Inr (boundary As ident fallback, map_set suspended ident promise))"

text \<open>
  \<^verbatim>\<open>Promise.race(suspended.values())\<close> at the moment \<open>now\<close>: of the promises that are
  settled by then, the first in the order of the map wins at once; when none is, the one
  that settles first wins, at its moment (of two that settle at the same moment, the
  first in the order of the map); when none ever settles, the race never does.
\<close>

fun settled_by :: "nat \<Rightarrow> 'v suspended \<Rightarrow> (string \<times> ('v thrown + string)) option" where
  "settled_by now [] = None"
| "settled_by now ((k, Settles t r) # m) = (if t \<le> now then Some (k, r) else settled_by now m)"
| "settled_by now ((k, Never_settles) # m) = settled_by now m"

fun settling :: "'v suspended \<Rightarrow> (nat \<times> string \<times> ('v thrown + string)) list" where
  "settling [] = []"
| "settling ((k, Settles t r) # m) = (t, k, r) # settling m"
| "settling ((k, Never_settles) # m) = settling m"

definition Promise_race ::
  "nat \<Rightarrow> 'v suspended \<Rightarrow> (nat \<times> string \<times> ('v thrown + string)) option" where
  "Promise_race now m =
     (case settled_by now m of
        Some (k, r) \<Rightarrow> Some (now, k, r)
      | None \<Rightarrow> earliest (settling m))"

text \<open>\<^verbatim>\<open>yield*\<close> of a string yields it character by character.\<close>

definition yield_star :: "string \<Rightarrow> string list" where
  "yield_star s = map (\<lambda>c. [c]) s"

definition script :: "string \<Rightarrow> string" where
  "script nonceAttribute =
       nl @ ''<script type='' @ dq @ ''application/javascript'' @ dq @ nonceAttribute
       @ ''>'' @ nl @ nl @ ''class ResolvedData extends HTMLElement {'' @ nl
       @ ''  connectedCallback() {'' @ nl @ ''    const templateId = this.getAttribute(''
       @ sq @ ''from'' @ sq @ '');'' @ nl @ ''    const targetId = this.getAttribute(''
       @ sq @ ''to'' @ sq @ '');'' @ nl
       @ ''    const template = document.getElementById(templateId);'' @ nl
       @ ''    const target = document.getElementById(targetId);'' @ nl
       @ ''    if (template instanceof HTMLTemplateElement && target instanceof HTMLElement) {''
       @ nl @ ''      target.replaceWith(template.content.cloneNode(true));'' @ nl
       @ ''    }'' @ nl @ nl @ ''    this.remove();'' @ nl @ ''    template?.remove();''
       @ nl @ ''  }'' @ nl @ ''}'' @ nl @ nl @ ''customElements.define('' @ sq
       @ ''resolved-data'' @ sq @ '', ResolvedData);'' @ nl @ ''</script>'' @ nl"

definition patch :: "string \<Rightarrow> string \<Rightarrow> string \<Rightarrow> string" where
  "patch templateId element ident =
     nl @ ''<template id='' @ dq @ templateId @ dq @ ''>'' @ element @ ''</template>'' @ nl
       @ ''<resolved-data to='' @ dq @ ident @ dq @ '' from='' @ dq @ templateId @ dq @ ''>''
       @ nl @ ''</resolved-data>''"

text \<open>
  What the loop of the generator does from the moment \<open>now\<close> on: the keys it resolves,
  in the order of their patches, the text it yields, how it ends, and what it leaves in
  the map. \<open>uuids\<close> are the values of \<^verbatim>\<open>crypto.randomUUID()\<close>, \<open>n\<close> counts those used, and
  \<open>emit\<close> is the time that passes between the patch of one round and the race of the
  next: none when the node is read through \<^verbatim>\<open>toReadableStream\<close>, whose \<^verbatim>\<open>start\<close> takes the
  chunks as fast as the generator yields them, some for a consumer that takes its time
  over each chunk it pulls from \<^verbatim>\<open>text\<close>.
\<close>

record 'v drained =
  resolved :: "string list"
  yields :: "string list"
  ended :: "'v ending"
  remaining :: "'v suspended"

lemma earliest_member: "earliest xs = Some y \<Longrightarrow> y \<in> set xs"
  by (induction xs arbitrary: y) (auto split: option.splits if_splits)

lemma settled_by_key: "settled_by now m = Some (k, r) \<Longrightarrow> k \<in> fst ` set m"
  by (induction now m rule: settled_by.induct) (auto split: if_splits)

lemma settling_key: "(t, k, r) \<in> set (settling m) \<Longrightarrow> k \<in> fst ` set m"
  by (induction m rule: settling.induct) auto

lemma Promise_race_key: "Promise_race now m = Some (t, k, r) \<Longrightarrow> k \<in> fst ` set m"
  by (auto simp: Promise_race_def split: option.splits
      dest: settled_by_key earliest_member settling_key)

lemma map_delete_shorter: "k \<in> fst ` set m \<Longrightarrow> length (map_delete m k) < length m"
  unfolding map_delete_def by (auto intro: length_filter_less)

function drain ::
  "nat \<Rightarrow> (nat \<Rightarrow> string) \<Rightarrow> nat \<Rightarrow> nat \<Rightarrow> 'v suspended \<Rightarrow> 'v drained" where
  "drain emit uuids n now [] = \<lparr>resolved = [], yields = [], ended = Done, remaining = []\<rparr>"
| "drain emit uuids n now (x # m) =
     (case Promise_race now (x # m) of
        None \<Rightarrow> \<lparr>resolved = [], yields = [], ended = Stalls, remaining = x # m\<rparr>
      | Some (t, ident, Inl e) \<Rightarrow>
          \<lparr>resolved = [], yields = [], ended = Fails e, remaining = x # m\<rparr>
      | Some (t, ident, Inr element) \<Rightarrow>
          (let rest = drain emit uuids (Suc n) (t + emit) (map_delete (x # m) ident)
           in rest\<lparr>resolved := ident # resolved rest,
                   yields := yield_star (patch (uuids n) element ident) @ yields rest\<rparr>))"
  by pat_completeness auto
termination
proof (relation "measure (\<lambda>(emit, uuids, n, now, m). length m)")
  show "wf (measure (\<lambda>(emit, uuids, n, now, m). length m))" by simp
next
  fix emit :: nat and uuids :: "nat \<Rightarrow> string" and n now :: nat
    and x :: "string \<times> ('v, string) promise" and m :: "'v suspended"
    and x2 :: "nat \<times> string \<times> ('v thrown + string)" and t y ident r element
  assume "Promise_race now (x # m) = Some x2" "(t, y) = x2" "(ident, r) = y" "r = Inr element"
  then have "Promise_race now (x # m) = Some (t, ident, r)" by simp
  then have "ident \<in> fst ` set (x # m)" by (rule Promise_race_key)
  then have "length (map_delete (x # m) ident) < length (x # m)" by (rule map_delete_shorter)
  then show "((emit, uuids, Suc n, t + emit, map_delete (x # m) ident), (emit, uuids, n, now, x # m))
      \<in> measure (\<lambda>(emit, uuids, n, now, m). length m)"
    by simp
qed

declare drain.simps(2) [simp del]

text \<open>
  \<^verbatim>\<open>Resolve\<close> looks at the size of the map when it is called: nothing pending gives the
  empty fragment, otherwise the generator, which runs when the stream gets to it.
\<close>

datatype resolve_node = Empty_fragment | Generator string

definition Resolve :: "string option \<Rightarrow> 'v suspended \<Rightarrow> resolve_node" where
  "Resolve nonce suspended =
     (if length suspended = 0 then Empty_fragment
      else Generator (case nonce of
                        None \<Rightarrow> []
                      | Some n \<Rightarrow> if n = [] then [] else '' nonce='' @ dq @ n @ dq))"

text \<open>
  The text of the node for the stream that consumes it at \<open>now\<close>, and the map after it.
\<close>

fun consume ::
  "nat \<Rightarrow> (nat \<Rightarrow> string) \<Rightarrow> nat \<Rightarrow> resolve_node \<Rightarrow> 'v suspended \<Rightarrow> 'v html \<times> 'v suspended" where
  "consume emit uuids now Empty_fragment m = (Html [] Done, m)"
| "consume emit uuids now (Generator nonceAttribute) m =
     (let d = drain emit uuids 0 now m
      in (Html (yield_star (script nonceAttribute) @ yields d) (ended d), remaining d))"

section \<open>Notions of the specification\<close>

text \<open>
  The chain a request is served from: the matched chain, without its outermost
  fragment when the request carries the \<^verbatim>\<open>fx-request\<close> header.
\<close>

definition chain_of :: "request \<Rightarrow> ('v, 'e) fragment list \<Rightarrow> ('v, 'e) fragment list" where
  "chain_of req frags = (if has_header (req_headers req) ''fx-request'' then drop 1 frags else frags)"

text \<open>The response that carries a value JSON-encoded.\<close>

definition json_response :: "'v \<Rightarrow> 'v response" where
  "json_response v =
     \<lparr>status = 200, resp_headers = [(''content-type'', ''application/json'')], body = Json_body v\<rparr>"

text \<open>
  The header entries one fragment contributes: those its \<^verbatim>\<open>headers\<close> function gives for
  the fragment's loader result, the null ones left out.
\<close>

fun non_null :: "(string \<times> string option) list \<Rightarrow> header_list" where
  "non_null [] = []"
| "non_null ((k, None) # es) = non_null es"
| "non_null ((k, Some v) # es) = (k, v) # non_null es"

definition emitted :: "'e ctx \<Rightarrow> ('v, 'e) fragment \<Rightarrow> 'v jsval \<Rightarrow> header_list" where
  "emitted ctx fragment loaderData =
     (case headers (frag_mod fragment) of
        None \<Rightarrow> []
      | Some headers_fn \<Rightarrow>
          (case await_call (headers_fn ctx loaderData) of
             Ok h \<Rightarrow> non_null (entries_of h)
           | _ \<Rightarrow> []))"

text \<open>How the pump's \<^verbatim>\<open>try\<close> block ends when every write is taken.\<close>

fun ending_outcome :: "'v ending \<Rightarrow> ('v, unit) outcome" where
  "ending_outcome Done = Ok ()"
| "ending_outcome (Fails e) = Thrown e"
| "ending_outcome Stalls = Hangs"

text \<open>The client takes \<open>n\<close> writes.\<close>

definition takes_all :: "nat option \<Rightarrow> nat \<Rightarrow> bool" where
  "takes_all acc n = (case acc of None \<Rightarrow> True | Some m \<Rightarrow> n \<le> m)"

text \<open>
  The reasons with which the calls of a list fail, whether they throw at once or their
  promise is rejected.
\<close>

fun failed_calls :: "('v, 'a) call list \<Rightarrow> 'v thrown list" where
  "failed_calls [] = []"
| "failed_calls (Throws_sync e # cs) = e # failed_calls cs"
| "failed_calls (Returns (Settles t (Inl e)) # cs) = e # failed_calls cs"
| "failed_calls (Returns (Settles t (Inr a)) # cs) = failed_calls cs"
| "failed_calls (Returns Never_settles # cs) = failed_calls cs"









section \<open>Responses that share the process\<close>

text \<open>
  Several responses are rendered and streamed in one process, and the code of each reads
  and writes the one map \<^verbatim>\<open>suspended\<close> of the module. The code of a response runs until it
  awaits or yields, and then the code of any other response may run; so the process is
  modelled by the steps between these points. A response, known by its number, has at
  most one \<^verbatim>\<open>Resolve\<close>, whose generator is in one of these states: \<^verbatim>\<open>Resolve\<close> has not been
  called; it was called and found the map empty, so there is no generator; the generator
  has been created and not yet run; it has yielded the script, or a patch, and is about
  to test \<^verbatim>\<open>suspended.size > 0\<close>; it awaits \<^verbatim>\<open>Promise.race\<close>, having drawn the template id
  and handed to the race the promises the map held at that moment; it has returned, or
  thrown.
\<close>

datatype 'v generator =
    Not_called
  | No_generator
  | Created string
  | At_loop_head
  | Awaits_race string "'v suspended" nat
  | Finished "'v ending"

text \<open>
  The events of the process: time passes; a response calls \<^verbatim>\<open>Suspense\<close>; a response calls
  \<^verbatim>\<open>Resolve\<close>; the generator of a response runs up to its next \<^verbatim>\<open>await\<close> or to the end of
  its next \<^verbatim>\<open>yield*\<close>.
\<close>

datatype 'v event =
    Passes nat
  | Renders_Suspense nat string "'v html" string "'v children"
  | Renders_Resolve nat "string option"
  | Advances nat

text \<open>
  The state of the process: the clock, the map \<^verbatim>\<open>suspended\<close>, how many values of
  \<^verbatim>\<open>crypto.randomUUID()\<close> the generators have drawn, the generator of each response and the
  text it has yielded to the stream of its response. Next to these, the process records
  which response declared which key and which response's stream was given the patch of
  which key.
\<close>

record 'v process =
  clock :: nat
  registry :: "'v suspended"
  drawn :: nat
  generators :: "nat \<Rightarrow> 'v generator"
  streamed :: "nat \<Rightarrow> string list"
  declared :: "(nat \<times> string) list"
  patched :: "(nat \<times> string) list"

text \<open>
  One event. \<^verbatim>\<open>Suspense\<close> writes the map. \<^verbatim>\<open>Resolve\<close> reads its size. A generator that has
  been created yields the script. At the head of the loop it returns when the map is
  empty, and otherwise draws the template id and starts the race over the promises the
  map holds now. A generator that awaits a race goes on once the race is settled: a
  rejection is thrown out of the generator; with a fulfilment it deletes the key of the
  winner from the map, as the map is then, and yields the patch. An event that a
  response is not ready for leaves the process as it is.
\<close>

fun step :: "(nat \<Rightarrow> string) \<Rightarrow> 'v event \<Rightarrow> 'v process \<Rightarrow> 'v process" where
  "step uuids (Passes d) p = p\<lparr>clock := clock p + d\<rparr>"
| "step uuids (Renders_Suspense r uuid fallback As children) p =
     (case Suspense uuid fallback As children (registry p) of
        Inl e \<Rightarrow> p
      | Inr (element, m) \<Rightarrow>
          p\<lparr>registry := m, declared := declared p @ [(r, ''suspense-'' @ uuid)]\<rparr>)"
| "step uuids (Renders_Resolve r nonce) p =
     (case generators p r of
        Not_called \<Rightarrow>
          (case Resolve nonce (registry p) of
             Empty_fragment \<Rightarrow> p\<lparr>generators := (generators p)(r := No_generator)\<rparr>
           | Generator nonceAttribute \<Rightarrow>
               p\<lparr>generators := (generators p)(r := Created nonceAttribute)\<rparr>)
      | _ \<Rightarrow> p)"
| "step uuids (Advances r) p =
     (case generators p r of
        Created nonceAttribute \<Rightarrow>
          p\<lparr>generators := (generators p)(r := At_loop_head),
            streamed := (streamed p)(r := streamed p r @ yield_star (script nonceAttribute))\<rparr>
      | At_loop_head \<Rightarrow>
          (if length (registry p) > 0
           then p\<lparr>drawn := Suc (drawn p),
                  generators := (generators p)
                    (r := Awaits_race (uuids (drawn p)) (registry p) (clock p))\<rparr>
           else p\<lparr>generators := (generators p)(r := Finished Done)\<rparr>)
      | Awaits_race templateId raced since \<Rightarrow>
          (case Promise_race since raced of
             None \<Rightarrow> p
           | Some (t, ident, Inl e) \<Rightarrow>
               (if t \<le> clock p
                then p\<lparr>generators := (generators p)(r := Finished (Fails e))\<rparr>
                else p)
           | Some (t, ident, Inr element) \<Rightarrow>
               (if t \<le> clock p
                then p\<lparr>registry := map_delete (registry p) ident,
                       generators := (generators p)(r := At_loop_head),
                       streamed := (streamed p)
                         (r := streamed p r @ yield_star (patch templateId element ident)),
                       patched := patched p @ [(r, ident)]\<rparr>
                else p))
      | _ \<Rightarrow> p)"

fun run :: "(nat \<Rightarrow> string) \<Rightarrow> 'v event list \<Rightarrow> 'v process \<Rightarrow> 'v process" where
  "run uuids [] p = p"
| "run uuids (ev # evs) p = run uuids evs (step uuids ev p)"

text \<open>
  The events of a response whose generator runs with no other response in between, from
  the head of its loop at the moment \<open>now\<close> over the map \<open>m\<close>: each round it starts the
  race, waits until the race is settled, goes on, and \<open>emit\<close> passes before the next
  round.
\<close>

function alone :: "nat \<Rightarrow> nat \<Rightarrow> nat \<Rightarrow> 'v suspended \<Rightarrow> 'v event list" where
  "alone emit r now [] = [Advances r]"
| "alone emit r now (x # m) =
     (case Promise_race now (x # m) of
        None \<Rightarrow> [Advances r]
      | Some (t, ident, Inl e) \<Rightarrow> [Advances r, Passes (t - now), Advances r]
      | Some (t, ident, Inr element) \<Rightarrow>
          [Advances r, Passes (t - now), Advances r, Passes emit]
            @ alone emit r (t + emit) (map_delete (x # m) ident))"
  by pat_completeness auto
termination
proof (relation "measure (\<lambda>(emit, r, now, m). length m)")
  show "wf (measure (\<lambda>(emit, r, now, m). length m))" by simp
next
  fix emit r now :: nat and x :: "string \<times> ('v, string) promise" and m :: "'v suspended"
    and w :: "nat \<times> string \<times> ('v thrown + string)" and t :: nat
    and y :: "string \<times> ('v thrown + string)" and ident :: string
    and res :: "'v thrown + string" and element :: string
  assume "Promise_race now (x # m) = Some w" and "(t, y) = w" and "(ident, res) = y"
    and "res = Inr element"
  then have "Promise_race now (x # m) = Some (t, ident, Inr element)" by simp
  then have "ident \<in> fst ` set (x # m)" by (rule Promise_race_key)
  then have "length (map_delete (x # m) ident) < length (x # m)" by (rule map_delete_shorter)
  then show "((emit, r, t + emit, map_delete (x # m) ident), (emit, r, now, x # m))
      \<in> measure (\<lambda>(emit, r, now, m). length m)"
    by simp
qed

declare alone.simps(2) [simp del]



section \<open>Example modules, routes and requests\<close>

definition no_exports :: "(string, unit) module" where
  "no_exports = \<lparr>loader = None, action = None, default_export = None, headers = None\<rparr>"

definition fragment_of :: "string \<Rightarrow> (string, unit) module \<Rightarrow> (string, unit) fragment" where
  "fragment_of name m = \<lparr>frag_id = name, frag_mod = m, frag_params = None\<rparr>"

text \<open>The patterns \<^verbatim>\<open>/users/new\<close> and \<^verbatim>\<open>/users/:id\<close>.\<close>

definition users_new :: pattern where
  "users_new = (\<lambda>u. if u = ''/users/new'' then Some [] else None)"

definition users_id :: pattern where
  "users_id =
     (\<lambda>u. if take 7 u = ''/users/'' \<and> drop 7 u \<noteq> [] \<and> CHR ''/'' \<notin> set (drop 7 u)
          then Some [(''id'', drop 7 u)] else None)"

text \<open>
  A component that puts its children into an element (the closing tag is reached only
  when the children's text ends), and a loader that returns data.
\<close>

definition wrap :: "string \<Rightarrow> string renderer" where
  "wrap tag = (\<lambda>loaderData children.
     Inr (Element (Html
       ([''<'' @ tag @ ''>''] @ chunks children
          @ (case ending children of Done \<Rightarrow> [''</'' @ tag @ ''>''] | _ \<Rightarrow> []))
       (ending children))))"

definition gives :: "string jsval \<Rightarrow> (string, unit) loader" where
  "gives v = (\<lambda>ctx. Returns (Settles 0 (Inr v)))"

definition get_request :: "string \<Rightarrow> request" where
  "get_request u = \<lparr>url = u, req_method = ''GET'', req_headers = []\<rparr>"

definition partial_request :: "string \<Rightarrow> request" where
  "partial_request u = \<lparr>url = u, req_method = ''GET'', req_headers = [(''fx-request'', ''true'')]\<rparr>"

definition post_request :: "string \<Rightarrow> request" where
  "post_request u = \<lparr>url = u, req_method = ''POST'', req_headers = []\<rparr>"

definition good_client :: transport where
  "good_client = \<lparr>accepts = None, dequeued = 0\<rparr>"

definition exactly :: "string \<Rightarrow> pattern" where
  "exactly p = (\<lambda>u. if u = p then Some [] else None)"

definition cookie :: "string jsval \<Rightarrow> string" where
  "cookie loaderData = (case loaderData of Data v \<Rightarrow> ''from='' @ v | _ \<Rightarrow> ''none'')"

definition doc_module :: "(string, unit) module" where
  "doc_module =
     \<lparr>loader = Some (gives (Data ''site'')), action = None,
      default_export = Some (wrap ''html''),
      headers = Some (\<lambda>ctx loaderData. Returns (Settles 0 (Inr (Record_object
                  [(''Set-Cookie'', Some (cookie loaderData)), (''X-Trace'', None)]))))\<rparr>"

definition page_module :: "(string, unit) module" where
  "page_module =
     \<lparr>loader = Some (gives (Data ''page'')), action = None,
      default_export = Some (wrap ''main''),
      headers = Some (\<lambda>ctx loaderData. Returns (Settles 0 (Inr (Headers_object
                  [(''Set-Cookie'', cookie loaderData)]))))\<rparr>"

definition document_chain :: "(string, unit) fragment list" where
  "document_chain = [fragment_of ''doc'' doc_module, fragment_of ''page'' page_module]"

definition page_ctx :: "unit ctx" where
  "page_ctx = \<lparr>request = get_request ''/page'', params = [], context_args = ()\<rparr>"

definition see_other :: "string response" where
  "see_other = \<lparr>status = 303, resp_headers = [(''Location'', ''/login'')], body = Null_body\<rparr>"

definition rejects_with :: "string thrown \<Rightarrow> (string, unit) loader" where
  "rejects_with e = (\<lambda>ctx. Returns (Settles 3 (Inl e)))"

definition rejecting :: "string thrown \<Rightarrow> string renderer" where
  "rejecting e = (\<lambda>loaderData children. Inr (Promised (Settles 1 (Inl e))))"

definition throwing :: "string thrown \<Rightarrow> string renderer" where
  "throwing e = (\<lambda>loaderData children. Inl e)"

definition keeps_up :: transport where
  "keeps_up = \<lparr>accepts = None, dequeued = 8\<rparr>"

definition broken_chain :: "(string, unit) fragment list" where
  "broken_chain =
     [fragment_of ''doc'' doc_module,
      fragment_of ''page''
        (page_module\<lparr>default_export := Some (rejecting (Thrown_error ''boom''))\<rparr>)]"

definition api_module :: "(string, unit) module" where
  "api_module =
     \<lparr>loader = Some (gives (Data ''users'')), action = Some (gives (Resp see_other)),
      default_export = None, headers = None\<rparr>"

definition raw_module :: "(string, unit) module" where
  "raw_module =
     \<lparr>loader = Some (gives (Resp see_other)), action = Some (gives (Data ''saved'')),
      default_export = None, headers = None\<rparr>"

definition crash_chain :: "(string, unit) fragment list" where
  "crash_chain =
     [fragment_of ''doc'' doc_module,
      fragment_of ''page'' (page_module\<lparr>loader := Some (rejects_with (Thrown_error ''boom''))\<rparr>)]"

definition locked_module :: "(string, unit) module" where
  "locked_module =
     \<lparr>loader = Some (rejects_with (Thrown_response see_other)),
      action = Some (rejects_with (Thrown_response see_other)),
      default_export = None, headers = None\<rparr>"

definition guarded_chain :: "(string, unit) fragment list" where
  "guarded_chain =
     [fragment_of ''doc'' doc_module,
      fragment_of ''page''
        (page_module\<lparr>loader := Some (rejects_with (Thrown_response see_other))\<rparr>)]"

definition thrower_chain :: "(string, unit) fragment list" where
  "thrower_chain =
     [fragment_of ''doc'' doc_module,
      fragment_of ''page''
        (page_module\<lparr>default_export := Some (throwing (Thrown_response see_other))\<rparr>)]"

definition header_thrower_chain :: "(string, unit) fragment list" where
  "header_thrower_chain =
     [fragment_of ''doc'' doc_module,
      fragment_of ''page''
        (page_module\<lparr>headers :=
           Some (\<lambda>ctx loaderData. Throws_sync (Thrown_response see_other))\<rparr>)]"

definition late_chain :: "(string, unit) fragment list" where
  "late_chain =
     [fragment_of ''doc'' doc_module,
      fragment_of ''page''
        (page_module\<lparr>default_export := Some (rejecting (Thrown_response see_other))\<rparr>)]"

definition racing_chain :: "(string, unit) fragment list" where
  "racing_chain =
     [fragment_of ''doc''
        (doc_module\<lparr>loader := Some (\<lambda>ctx. Returns (Settles 1 (Inl (Thrown_error ''boom''))))\<rparr>),
      fragment_of ''page''
        (page_module\<lparr>loader := Some (rejects_with (Thrown_response see_other))\<rparr>)]"

definition site :: "(string, unit) route list" where
  "site =
     [(exactly ''/page'', document_chain),
      (exactly ''/crash'', crash_chain),
      (exactly ''/api'', [fragment_of ''doc'' doc_module, fragment_of ''api'' api_module]),
      (exactly ''/raw'', [fragment_of ''doc'' doc_module, fragment_of ''raw'' raw_module]),
      (exactly ''/locked'', [fragment_of ''doc'' doc_module, fragment_of ''locked'' locked_module]),
      (exactly ''/guarded'', guarded_chain),
      (exactly ''/thrower'', thrower_chain),
      (exactly ''/header'', header_thrower_chain),
      (exactly ''/late'', late_chain),
      (exactly ''/racing'', racing_chain)]"

text \<open>Template ids, and maps of pending subtrees.\<close>

definition fresh :: "nat \<Rightarrow> string" where
  "fresh n = replicate (Suc n) (CHR ''t'')"


definition one_rejected :: "string suspended" where
  "one_rejected =
     [(''a'', Settles 10 (Inl (Thrown_error ''boom''))), (''b'', Settles 20 (Inr ''<p>B</p>''))]"

definition rejected_second :: "string suspended" where
  "rejected_second =
     [(''a'', Settles 10 (Inr ''<p>A</p>'')), (''b'', Settles 20 (Inl (Thrown_error ''boom''))),
      (''c'', Settles 30 (Inr ''<p>C</p>''))]"

definition still_pending :: "string suspended" where
  "still_pending =
     [(''b'', Settles 20 (Inl (Thrown_error ''boom''))), (''c'', Settles 30 (Inr ''<p>C</p>''))]"







section \<open>Route matching\<close>

lemma match_routes_skips:
  "\<forall>r \<in> set before. fst r urlStr = None \<Longrightarrow> pattern urlStr = Some groups \<Longrightarrow>
   match_routes (before @ (pattern, frags) # after) urlStr = Some (frags, groups)"
  by (induction before) (auto split: option.splits)

section \<open>Merged headers and loader results\<close>

lemma append_entries_eq: "append_entries hs es = hs @ non_null es"
  by (induction hs es rule: append_entries.induct) (simp_all add: append_header_def)

lemma merge_loop_Ok:
  "merge_loop fs i hs ctx ls = Ok hs' \<Longrightarrow>
   hs' = hs @ concat (map2 (emitted ctx) fs (map (at_index ls) [i..<i + length fs]))"
proof (induction fs arbitrary: i hs)
  case Nil
  then show ?case by simp
next
  case (Cons f fs)
  have upt: "[i..<i + length (f # fs)] = i # [Suc i..<Suc i + length fs]"
    by (simp add: upt_rec)
  show ?case
  proof (cases "headers (frag_mod f)")
    case None
    with Cons.prems have "merge_loop fs (Suc i) hs ctx ls = Ok hs'" by simp
    from Cons.IH[OF this] None show ?thesis
      unfolding upt by (simp add: emitted_def)
  next
    case (Some hf)
    show ?thesis
    proof (cases "await_call (hf ctx (at_index ls i))")
      case (Ok h)
      show ?thesis
      proof (cases "h = No_headers")
        case True
        with Cons.prems Some Ok have "merge_loop fs (Suc i) hs ctx ls = Ok hs'" by simp
        from Cons.IH[OF this] Some Ok True show ?thesis
          unfolding upt by (simp add: emitted_def)
      next
        case False
        with Cons.prems Some Ok
        have "merge_loop fs (Suc i) (append_entries hs (entries_of h)) ctx ls = Ok hs'"
          by (cases h) simp_all
        from Cons.IH[OF this] Some Ok show ?thesis
          unfolding upt by (simp add: emitted_def append_entries_eq)
      qed
    next
      case (Thrown e)
      with Cons.prems Some show ?thesis by simp
    next
      case Hangs
      with Cons.prems Some show ?thesis by simp
    qed
  qed
qed

lemma map_at_index: "map (at_index ls) [0..<length ls] = ls"
proof -
  have "map (at_index ls) [0..<length ls] = map ((!) ls) [0..<length ls]"
    by (rule map_cong) (simp_all add: at_index_def)
  then show ?thesis by (simp add: map_nth)
qed

lemma mergeFragmentHeaders_Ok:
  assumes "mergeFragmentHeaders init ctx fragments loaders = Ok hs"
      and "length loaders = length fragments"
  shows "hs = init @ concat (map2 (emitted ctx) fragments loaders)"
  using merge_loop_Ok[of fragments 0 init ctx loaders hs] assms map_at_index[of loaders]
  by (simp add: mergeFragmentHeaders_def)

lemma map_calls_Inr: "map_calls cs = Inr ps \<Longrightarrow> cs = map Returns ps"
  by (induction cs arbitrary: ps rule: map_calls.induct) (auto split: sum.splits)

lemma fulfilments_Some:
  "fulfilments ps = Some vs \<Longrightarrow> list_all2 (\<lambda>p v. \<exists>t. p = Settles t (Inr v)) ps vs"
  by (induction ps arbitrary: vs rule: fulfilments.induct) auto

lemma run_loaders_Ok:
  assumes "run_loaders fragments ctx = Ok loaders"
  shows "list_all2 (\<lambda>f v. \<exists>t. call_loader ctx f = Returns (Settles t (Inr v))) fragments loaders"
proof -
  from assms obtain ps where ps: "map_calls (map (call_loader ctx) fragments) = Inr ps"
    and all: "Promise_all ps = Ok loaders"
    by (auto simp: run_loaders_def split: sum.splits)
  from all have "fulfilments ps = Some loaders"
    by (auto simp: Promise_all_def split: option.splits)
  then have l2: "list_all2 (\<lambda>p v. \<exists>t. p = Settles t (Inr v)) ps loaders"
    by (rule fulfilments_Some)
  from ps have "map (call_loader ctx) fragments = map Returns ps"
    by (rule map_calls_Inr)
  then have "list_all2 (\<lambda>f p. call_loader ctx f = Returns p) fragments ps"
    by (induction fragments arbitrary: ps) auto
  from list_all2_trans[where ?P1.0="\<lambda>f p. call_loader ctx f = Returns p"
      and ?P2.0="\<lambda>p v. \<exists>t. p = Settles t (Inr v)"
      and ?P3.0="\<lambda>f v. \<exists>t. call_loader ctx f = Returns (Settles t (Inr v))", OF _ this l2]
  show ?thesis by blast
qed

lemma merge_loop_extends:
  "merge_loop fs i hs ctx ls = Ok hs' \<Longrightarrow> \<exists>rest. hs' = hs @ rest"
  by (drule merge_loop_Ok) blast

lemma mergeFragmentHeaders_extends:
  "mergeFragmentHeaders hs ctx fs ls = Ok hs' \<Longrightarrow> \<exists>rest. hs' = hs @ rest"
  unfolding mergeFragmentHeaders_def by (rule merge_loop_extends)

lemma concat_two:
  assumes "i < j" "j < length xs" "x \<in> set (xs ! i)" "y \<in> set (xs ! j)"
  shows "\<exists>a b c. concat xs = a @ x # b @ y # c"
proof -
  have xs: "xs = take j xs @ xs ! j # drop (Suc j) xs"
    using assms(2) by (simp add: id_take_nth_drop)
  from assms have "xs ! i \<in> set (take j xs)"
    by (auto simp: in_set_conv_nth intro!: exI[where x=i])
  with assms(3) have "x \<in> set (concat (take j xs))" by auto
  then have "\<exists>a b'. concat (take j xs) = a @ x # b'" by (rule split_list)
  then obtain a b' where a: "concat (take j xs) = a @ x # b'" by blast
  from assms(4) have "\<exists>c1 c2. xs ! j = c1 @ y # c2" by (rule split_list)
  then obtain c1 c2 where c: "xs ! j = c1 @ y # c2" by blast
  have "concat xs = concat (take j xs) @ xs ! j @ concat (drop (Suc j) xs)"
    by (subst xs) simp
  with a c have "concat xs = a @ x # (b' @ c1) @ y # (c2 @ concat (drop (Suc j) xs))" by simp
  then show ?thesis by blast
qed

section \<open>The pump\<close>

lemma pump_all:
  "chan_state ch = Open \<Longrightarrow> takes_all acc (length (written ch) + length q) \<Longrightarrow>
   pump acc q (fin :: 'v ending) ch = (ending_outcome fin, ch\<lparr>written := written ch @ q\<rparr>)"
proof (induction q arbitrary: ch)
  case Nil
  then show ?case by (cases fin) simp_all
next
  case (Cons c q)
  let ?ch = "ch\<lparr>written := written ch @ [c]\<rparr>"
  from Cons.prems have w: "writer_write acc c ch = (None :: 'v thrown option, ?ch)"
    by (auto simp: writer_write_def takes_all_def split: option.splits)
  from Cons.prems have "chan_state ?ch = Open"
    and "takes_all acc (length (written ?ch) + length q)" by simp_all
  from Cons.IH[OF this] w show ?case by simp
qed

lemma pump_break:
  "chan_state ch = Open \<Longrightarrow> length (written ch) \<le> n \<Longrightarrow> n < length (written ch) + length q \<Longrightarrow>
   pump (Some n) q (fin :: 'v ending) ch =
     (Thrown stream_error, ch\<lparr>written := take n (written ch @ q), chan_state := Errored\<rparr>)"
proof (induction q arbitrary: ch)
  case Nil
  then show ?case by simp
next
  case (Cons c q)
  show ?case
  proof (cases "length (written ch) < n")
    case True
    let ?ch = "ch\<lparr>written := written ch @ [c]\<rparr>"
    from True Cons.prems have w: "writer_write (Some n) c ch = (None :: 'v thrown option, ?ch)"
      by (simp add: writer_write_def)
    from True Cons.prems have "chan_state ?ch = Open" "length (written ?ch) \<le> n"
      "n < length (written ?ch) + length q" by simp_all
    from Cons.IH[OF this] w show ?thesis by simp
  next
    case False
    with Cons.prems have "length (written ch) = n" by simp
    with Cons.prems show ?thesis by (simp add: writer_write_def)
  qed
qed

lemma startStreaming_all:
  assumes "takes_all acc (Suc (length (queue rd)))"
  shows "startStreaming acc (rd :: 'v readable) new_channel =
     (ending_outcome (finish rd),
      \<lparr>written = preamble # queue rd,
       chan_state = (if finish rd = Stalls then Open else Closed),
       close_calls = (if finish rd = Stalls then 0 else 1)\<rparr>)"
proof -
  let ?ch1 = "new_channel\<lparr>written := [preamble]\<rparr>"
  from assms have w: "writer_write acc preamble new_channel = (None :: 'v thrown option, ?ch1)"
    by (auto simp: writer_write_def new_channel_def takes_all_def split: option.splits)
  from assms have "pump acc (queue rd) (finish rd) ?ch1 =
    (ending_outcome (finish rd), ?ch1\<lparr>written := written ?ch1 @ queue rd\<rparr>)"
    by (intro pump_all) (simp_all add: new_channel_def)
  with w show ?thesis
    by (cases "finish rd") (simp_all add: startStreaming_def writer_close_def new_channel_def)
qed

lemma startStreaming_break:
  assumes "n \<le> length (queue rd)"
  shows "startStreaming (Some n) (rd :: 'v readable) new_channel =
     (Thrown stream_error,
      \<lparr>written = take n (preamble # queue rd), chan_state = Errored, close_calls = 1\<rparr>)"
proof (cases n)
  case 0
  then show ?thesis
    by (simp add: startStreaming_def writer_write_def writer_close_def new_channel_def)
next
  case (Suc m)
  let ?ch1 = "new_channel\<lparr>written := [preamble]\<rparr>"
  from Suc have w: "writer_write (Some n) preamble new_channel = (None :: 'v thrown option, ?ch1)"
    by (simp add: writer_write_def new_channel_def)
  from Suc assms have "pump (Some n) (queue rd) (finish rd) ?ch1 =
    (Thrown stream_error, ?ch1\<lparr>written := take n (written ?ch1 @ queue rd), chan_state := Errored\<rparr>)"
    by (intro pump_break) (simp_all add: new_channel_def)
  with w show ?thesis
    by (simp add: startStreaming_def writer_close_def new_channel_def)
qed

lemma queue_prefix: "prefix (queue (toReadableStream d h)) (chunks h)"
  by (cases "(d, h)" rule: toReadableStream.cases) (simp_all add: take_is_prefix)

lemma startStreaming_prefix:
  "prefix (written (snd (startStreaming acc rd new_channel))) (preamble # queue rd)"
proof (cases "takes_all acc (Suc (length (queue rd)))")
  case True
  then show ?thesis by (simp add: startStreaming_all)
next
  case False
  then obtain n where "acc = Some n" "n \<le> length (queue rd)"
    by (auto simp: takes_all_def split: option.splits)
  then show ?thesis by (simp add: startStreaming_break take_is_prefix)
qed

lemma startStreaming_written:
  "written (snd (startStreaming acc rd new_channel)) =
     (case acc of None \<Rightarrow> preamble # queue rd | Some n \<Rightarrow> take n (preamble # queue rd))"
proof (cases "takes_all acc (Suc (length (queue rd)))")
  case True
  then show ?thesis
    by (auto simp: startStreaming_all takes_all_def split: option.splits)
next
  case False
  then obtain n where "acc = Some n" "n \<le> length (queue rd)"
    by (auto simp: takes_all_def split: option.splits)
  then show ?thesis by (simp add: startStreaming_break)
qed

section \<open>The branches of \<^verbatim>\<open>handle\<close>\<close>

lemma handle_document:
  assumes "match_routes routes (url req) = Some (frags, groups)"
      and "req_method req = ''GET''"
      and "leaf_of (chain_of req frags) = Some leaf"
      and "default_export leaf = Some C"
  shows "handle routes tr req args =
     catch_block (routeResponse tr (chain_of req frags) \<lparr>request = req, params = groups, context_args = args\<rparr>)"
  using assms by (simp add: handle_def chain_of_def Let_def)

lemma handle_loader:
  assumes "match_routes routes (url req) = Some (frags, groups)"
      and "req_method req = ''GET''"
      and "leaf_of (chain_of req frags) = Some leaf"
      and "default_export leaf = None"
      and "loader leaf = Some l"
  shows "handle routes tr req args =
     catch_block (dataResponse l \<lparr>request = req, params = groups, context_args = args\<rparr>)"
  using assms by (simp add: handle_def chain_of_def Let_def)

lemma handle_action:
  assumes "match_routes routes (url req) = Some (frags, groups)"
      and "req_method req \<noteq> ''GET''"
      and "leaf_of (chain_of req frags) = Some leaf"
      and "action leaf = Some a"
  shows "handle routes tr req args =
     catch_block (dataResponse a \<lparr>request = req, params = groups, context_args = args\<rparr>)"
  using assms by (simp add: handle_def chain_of_def Let_def)

lemma handle_no_action:
  assumes "match_routes routes (url req) = Some (frags, groups)"
      and "req_method req \<noteq> ''GET''"
      and "Option.bind (leaf_of (chain_of req frags)) action = None"
  shows "handle routes tr req args = Some (null_response 404, [])"
  using assms by (simp add: handle_def chain_of_def Let_def)

lemma dataResponse_Resp: "await_call (f ctx) = Ok (Resp r) \<Longrightarrow> dataResponse f ctx = Ok r"
  by (simp add: dataResponse_def)

lemma dataResponse_Data:
  "await_call (f ctx) = Ok (Data v) \<Longrightarrow> dataResponse f ctx = Ok (json_response v)"
  by (simp add: dataResponse_def json_response_def)

lemma dataResponse_Thrown: "await_call (f ctx) = Thrown e \<Longrightarrow> dataResponse f ctx = Thrown e"
  by (simp add: dataResponse_def)

lemma routeResponse_Ok:
  assumes "run_loaders fragments ctx = Ok loaders"
      and "mergeFragmentHeaders [(''Content-Type'', ''text/html'')] ctx fragments loaders = Ok hs"
      and "reduceRight fragments 0 loaders (into (Of_string [])) = Inr node"
  shows "routeResponse tr fragments ctx =
     Ok \<lparr>status = 200, resp_headers = hs,
         body = Stream_body (snd (startStreaming (accepts tr)
                  (toReadableStream (dequeued tr) node) new_channel))\<rparr>"
  using assms by (simp add: routeResponse_def)

lemma routeResponse_Ok_iff:
  "routeResponse tr fragments ctx = Ok r \<longleftrightarrow>
     (\<exists>loaders hs node. run_loaders fragments ctx = Ok loaders
        \<and> mergeFragmentHeaders [(''Content-Type'', ''text/html'')] ctx fragments loaders = Ok hs
        \<and> reduceRight fragments 0 loaders (into (Of_string [])) = Inr node
        \<and> r = \<lparr>status = 200, resp_headers = hs,
               body = Stream_body (snd (startStreaming (accepts tr)
                  (toReadableStream (dequeued tr) node) new_channel))\<rparr>)"
  by (auto simp: routeResponse_def split: outcome.splits sum.splits)

section \<open>Failing loaders\<close>

lemma earliest_empty: "earliest xs = None \<longleftrightarrow> xs = []"
  by (cases xs) (auto split: option.splits)

lemma map_calls_Inl: "map_calls cs = Inl e \<Longrightarrow> e \<in> set (failed_calls cs)"
  by (induction cs rule: failed_calls.induct) (auto split: sum.splits)

lemma map_calls_rejections:
  "map_calls cs = Inr ps \<Longrightarrow> map snd (rejections ps) = failed_calls cs"
  by (induction cs arbitrary: ps rule: failed_calls.induct) (auto split: sum.splits)

lemma run_loaders_same_failure:
  assumes "failed_calls (map (call_loader ctx) fragments) \<noteq> []"
      and "set (failed_calls (map (call_loader ctx) fragments)) \<subseteq> {e}"
  shows "run_loaders fragments ctx = Thrown e"
proof (cases "map_calls (map (call_loader ctx) fragments)")
  case (Inl e')
  from map_calls_Inl[OF this] assms(2) have "e' = e" by auto
  with Inl show ?thesis by (simp add: run_loaders_def)
next
  case (Inr ps)
  from map_calls_rejections[OF this] have r: "map snd (rejections ps) = failed_calls (map (call_loader ctx) fragments)" .
  with assms(1) have "rejections ps \<noteq> []" by auto
  then obtain t e' where e: "earliest (rejections ps) = Some (t, e')"
    by (cases "earliest (rejections ps)") (auto simp: earliest_empty)
  from earliest_member[OF this] have "e' \<in> set (map snd (rejections ps))" by force
  with r assms(2) have "e' = e" by auto
  with Inr e show ?thesis by (simp add: run_loaders_def Promise_all_def)
qed

section \<open>The example chains, evaluated\<close>

lemma document_chain_node:
  "reduceRight document_chain 0 [Data ''site'', Data ''page''] (Html [[]] Done) = 
     Inr (Html [''<html>'', ''<main>'', [], ''</main>'', ''</html>''] Done)"
  by (simp add: document_chain_def fragment_of_def doc_module_def page_module_def wrap_def at_index_def)

lemma document_chain_loaders: "run_loaders document_chain page_ctx = Ok [Data ''site'', Data ''page'']"
  by (simp add: run_loaders_def document_chain_def fragment_of_def doc_module_def page_module_def
      call_loader_def gives_def Promise_all_def)

lemma document_chain_headers:
  "mergeFragmentHeaders [(''Content-Type'', ''text/html'')] page_ctx document_chain
       [Data ''site'', Data ''page'']
     = Ok [(''Content-Type'', ''text/html''), (''Set-Cookie'', ''from=site''),
           (''Set-Cookie'', ''from=page'')]"
  by (simp add: mergeFragmentHeaders_def document_chain_def fragment_of_def doc_module_def
        page_module_def at_index_def append_header_def cookie_def)

lemma document_chain_cut:
  "routeResponse \<lparr>accepts = Some 2, dequeued = 0\<rparr> document_chain page_ctx =
     Ok \<lparr>status = 200,
         resp_headers = [(''Content-Type'', ''text/html''), (''Set-Cookie'', ''from=site''),
                         (''Set-Cookie'', ''from=page'')],
         body = Stream_body
           \<lparr>written = [preamble, ''<html>''], chan_state = Errored, close_calls = 1\<rparr>\<rparr>"
  by (simp add: routeResponse_def document_chain_loaders document_chain_headers
        document_chain_node startStreaming_def writer_write_def writer_close_def new_channel_def)

lemma broken_chain_node:
  "reduceRight broken_chain 0 [Data ''site'', Data ''page''] (Html [[]] Done) =
     Inr (Html [''<html>''] (Fails (Thrown_error ''boom'')))"
  by (simp add: broken_chain_def fragment_of_def doc_module_def page_module_def wrap_def
      rejecting_def at_index_def)

lemma broken_chain_loaders: "run_loaders broken_chain page_ctx = Ok [Data ''site'', Data ''page'']"
  by (simp add: run_loaders_def broken_chain_def fragment_of_def doc_module_def page_module_def
      call_loader_def gives_def Promise_all_def)

lemma broken_chain_headers:
  "mergeFragmentHeaders [(''Content-Type'', ''text/html'')] page_ctx broken_chain
       [Data ''site'', Data ''page'']
     = Ok [(''Content-Type'', ''text/html''), (''Set-Cookie'', ''from=site''),
           (''Set-Cookie'', ''from=page'')]"
  by (simp add: mergeFragmentHeaders_def broken_chain_def fragment_of_def doc_module_def
        page_module_def at_index_def append_header_def cookie_def)

lemma document_chain_response:
  "routeResponse good_client document_chain page_ctx =
     Ok \<lparr>status = 200,
         resp_headers = [(''Content-Type'', ''text/html''), (''Set-Cookie'', ''from=site''),
                         (''Set-Cookie'', ''from=page'')],
         body = Stream_body
           \<lparr>written = [preamble, ''<html>'', ''<main>'', [], ''</main>'', ''</html>''],
            chan_state = Closed, close_calls = 1\<rparr>\<rparr>"
  by (simp add: routeResponse_def run_loaders_def call_loader_def document_chain_def
      fragment_of_def doc_module_def page_module_def gives_def Promise_all_def
      mergeFragmentHeaders_def at_index_def append_header_def cookie_def wrap_def
      good_client_def startStreaming_def writer_write_def writer_close_def new_channel_def)

lemma site_page: "match_routes site ''/page'' = Some (document_chain, [])"
  by (simp add: site_def exactly_def)

lemma site_crash: "match_routes site ''/crash'' = Some (crash_chain, [])"
  by (simp add: site_def exactly_def)

lemma site_api:
  "match_routes site ''/api'' = Some ([fragment_of ''doc'' doc_module, fragment_of ''api'' api_module], [])"
  by (simp add: site_def exactly_def)

lemma site_raw:
  "match_routes site ''/raw'' = Some ([fragment_of ''doc'' doc_module, fragment_of ''raw'' raw_module], [])"
  by (simp add: site_def exactly_def)

lemma site_locked:
  "match_routes site ''/locked'' =
     Some ([fragment_of ''doc'' doc_module, fragment_of ''locked'' locked_module], [])"
  by (simp add: site_def exactly_def)

lemma site_guarded: "match_routes site ''/guarded'' = Some (guarded_chain, [])"
  by (simp add: site_def exactly_def)

lemma site_thrower: "match_routes site ''/thrower'' = Some (thrower_chain, [])"
  by (simp add: site_def exactly_def)

lemma site_header: "match_routes site ''/header'' = Some (header_thrower_chain, [])"
  by (simp add: site_def exactly_def)

lemma site_late: "match_routes site ''/late'' = Some (late_chain, [])"
  by (simp add: site_def exactly_def)

lemma site_racing: "match_routes site ''/racing'' = Some (racing_chain, [])"
  by (simp add: site_def exactly_def)

lemma racing_chain_loaders: "run_loaders racing_chain ctx = Thrown (Thrown_error ''boom'')"
  by (simp add: run_loaders_def racing_chain_def fragment_of_def doc_module_def page_module_def
      call_loader_def rejects_with_def Promise_all_def)

lemma leaf_of_pair: "leaf_of [f, g] = Some (frag_mod g)"
  by (simp add: leaf_of_def)

lemma chain_of_get: "chain_of (get_request u) frags = frags"
  by (simp add: chain_of_def get_request_def has_header_def)

lemma chain_of_post: "chain_of (post_request u) frags = frags"
  by (simp add: chain_of_def post_request_def has_header_def)

lemma page_ctx_eq: "\<lparr>request = get_request ''/page'', params = [], context_args = ()\<rparr> = page_ctx"
  by (simp add: page_ctx_def)

lemma await_gives: "await_call (gives v ctx) = Ok v"
  by (simp add: gives_def)

lemma await_rejects_with: "await_call (rejects_with e ctx) = Thrown e"
  by (simp add: rejects_with_def)

lemma crash_chain_loaders:
  "run_loaders crash_chain ctx = Thrown (Thrown_error ''boom'')"
  by (simp add: run_loaders_def crash_chain_def fragment_of_def doc_module_def page_module_def
      call_loader_def gives_def rejects_with_def Promise_all_def)

lemma late_chain_loaders: "run_loaders late_chain ctx = Ok [Data ''site'', Data ''page'']"
  by (simp add: run_loaders_def late_chain_def fragment_of_def doc_module_def page_module_def
      call_loader_def gives_def Promise_all_def)

lemma late_chain_headers:
  "mergeFragmentHeaders [(''Content-Type'', ''text/html'')] ctx late_chain
       [Data ''site'', Data ''page'']
     = Ok [(''Content-Type'', ''text/html''), (''Set-Cookie'', ''from=site''),
           (''Set-Cookie'', ''from=page'')]"
  by (simp add: mergeFragmentHeaders_def late_chain_def fragment_of_def doc_module_def
        page_module_def at_index_def append_header_def cookie_def)

lemma late_chain_node:
  "reduceRight late_chain 0 [Data ''site'', Data ''page''] (Html [[]] Done) =
     Inr (Html [''<html>''] (Fails (Thrown_response see_other)))"
  by (simp add: late_chain_def fragment_of_def doc_module_def page_module_def wrap_def
      rejecting_def at_index_def)

lemma guarded_chain_failed:
  "failed_calls (map (call_loader ctx) guarded_chain) = [Thrown_response see_other]"
  by (simp add: guarded_chain_def fragment_of_def doc_module_def page_module_def call_loader_def
      gives_def rejects_with_def)

lemma thrower_chain_loaders: "run_loaders thrower_chain ctx = Ok [Data ''site'', Data ''page'']"
  by (simp add: run_loaders_def thrower_chain_def fragment_of_def doc_module_def page_module_def
      call_loader_def gives_def Promise_all_def)

lemma thrower_chain_headers:
  "mergeFragmentHeaders [(''Content-Type'', ''text/html'')] ctx thrower_chain
       [Data ''site'', Data ''page'']
     = Ok [(''Content-Type'', ''text/html''), (''Set-Cookie'', ''from=site''),
           (''Set-Cookie'', ''from=page'')]"
  by (simp add: mergeFragmentHeaders_def thrower_chain_def fragment_of_def doc_module_def
        page_module_def at_index_def append_header_def cookie_def)

lemma thrower_chain_node:
  "reduceRight thrower_chain 0 [Data ''site'', Data ''page''] (into (Of_string [])) =
     Inl (Thrown_response see_other)"
  by (simp add: thrower_chain_def fragment_of_def doc_module_def page_module_def throwing_def
      at_index_def)

lemma header_thrower_chain_loaders:
  "run_loaders header_thrower_chain ctx = Ok [Data ''site'', Data ''page'']"
  by (simp add: run_loaders_def header_thrower_chain_def fragment_of_def doc_module_def
      page_module_def call_loader_def gives_def Promise_all_def)

lemma header_thrower_chain_headers:
  "mergeFragmentHeaders [(''Content-Type'', ''text/html'')] ctx header_thrower_chain
       [Data ''site'', Data ''page''] = Thrown (Thrown_response see_other)"
  by (simp add: mergeFragmentHeaders_def header_thrower_chain_def fragment_of_def doc_module_def
        page_module_def at_index_def append_header_def cookie_def)

section \<open>The drain loop\<close>

lemma map_delete_keys: "fst ` set (map_delete m k) = fst ` set m - {k}"
  by (auto simp: map_delete_def)

lemma map_delete_subset: "set (map_delete m k) \<subseteq> set m"
  by (auto simp: map_delete_def)

lemma drain_Cons_cases:
  obtains (stalls) "Promise_race now (x # m) = None"
      "drain emit uuids n now (x # m) = \<lparr>resolved = [], yields = [], ended = Stalls, remaining = x # m\<rparr>"
  | (fails) t ident e where "Promise_race now (x # m) = Some (t, ident, Inl e)"
      "drain emit uuids n now (x # m) = \<lparr>resolved = [], yields = [], ended = Fails e, remaining = x # m\<rparr>"
  | (patches) t ident element where "Promise_race now (x # m) = Some (t, ident, Inr element)"
      "drain emit uuids n now (x # m) =
         (drain emit uuids (Suc n) (t + emit) (map_delete (x # m) ident))
           \<lparr>resolved := ident # resolved (drain emit uuids (Suc n) (t + emit) (map_delete (x # m) ident)),
            yields := yield_star (patch (uuids n) element ident)
               @ yields (drain emit uuids (Suc n) (t + emit) (map_delete (x # m) ident))\<rparr>"
proof (cases "Promise_race now (x # m)")
  case None
  then show ?thesis using stalls by (simp add: drain.simps)
next
  case (Some w)
  obtain t ident r where w: "w = (t, ident, r)" by (cases w) auto
  show ?thesis
  proof (cases r)
    case (Inl e)
    with Some w show ?thesis using fails by (simp add: drain.simps)
  next
    case (Inr element)
    with Some w show ?thesis using patches by (simp add: drain.simps Let_def)
  qed
qed

lemma settled_by_entry:
  "settled_by now m = Some (k, r) \<Longrightarrow> \<exists>t. t \<le> now \<and> (k, Settles t r) \<in> set m"
  by (induction now m rule: settled_by.induct) (auto split: if_splits)

lemma settling_entry: "(t, k, r) \<in> set (settling m) \<longleftrightarrow> (k, Settles t r) \<in> set m"
  by (induction m rule: settling.induct) auto


lemma Promise_race_entry:
  "Promise_race now m = Some (t, k, r) \<Longrightarrow> \<exists>t'. (k, Settles t' r) \<in> set m"
proof (cases "settled_by now m")
  case None
  assume "Promise_race now m = Some (t, k, r)"
  with None have "earliest (settling m) = Some (t, k, r)" by (simp add: Promise_race_def)
  from earliest_member[OF this] show ?thesis by (auto simp: settling_entry)
next
  case (Some w)
  assume "Promise_race now m = Some (t, k, r)"
  with Some have "settled_by now m = Some (k, r)"
    by (cases w) (simp add: Promise_race_def)
  from settled_by_entry[OF this] show ?thesis by blast
qed

lemma drain_keys:
  "fst ` set m = set (resolved (drain emit uuids n now m)) \<union> fst ` set (remaining (drain emit uuids n now m))
   \<and> set (resolved (drain emit uuids n now m)) \<inter> fst ` set (remaining (drain emit uuids n now m)) = {}
   \<and> distinct (resolved (drain emit uuids n now m))"
proof (induction emit uuids n now m rule: drain.induct)
  case (1 emit uuids n now)
  then show ?case by simp
next
  case (2 emit uuids n now x m)
  show ?case
  proof (cases rule: drain_Cons_cases[of now x m emit uuids n])
    case stalls
    then show ?thesis by simp
  next
    case (fails t ident e)
    then show ?thesis by simp
  next
    case (patches t ident element)
    let ?rest = "drain emit uuids (Suc n) (t + emit) (map_delete (x # m) ident)"
    from "2.IH"[OF patches(1) refl refl refl]
    have ih: "fst ` set (map_delete (x # m) ident) = set (resolved ?rest) \<union> fst ` set (remaining ?rest)"
      "set (resolved ?rest) \<inter> fst ` set (remaining ?rest) = {}" "distinct (resolved ?rest)"
      by simp_all
    from Promise_race_key[OF patches(1)] have k: "ident \<in> fst ` set (x # m)" .
    from ih(1) have nk: "ident \<notin> set (resolved ?rest)" "ident \<notin> fst ` set (remaining ?rest)"
      unfolding map_delete_keys by blast+
    from ih(1) k have "fst ` set (x # m) = insert ident (set (resolved ?rest) \<union> fst ` set (remaining ?rest))"
      unfolding map_delete_keys by blast
    with ih nk patches(2) show ?thesis by simp
  qed
qed


lemma drain_resolved_fulfilled:
  "ident' \<in> set (resolved (drain emit uuids n now m)) \<Longrightarrow>
   \<exists>t element. (ident', Settles t (Inr element)) \<in> set m"
proof (induction emit uuids n now m rule: drain.induct)
  case (1 emit uuids n now)
  then show ?case by simp
next
  case (2 emit uuids n now x m)
  show ?case
  proof (cases rule: drain_Cons_cases[of now x m emit uuids n])
    case stalls
    with "2.prems" show ?thesis by simp
  next
    case (fails t ident e)
    with "2.prems" show ?thesis by simp
  next
    case (patches t ident element)
    let ?rest = "drain emit uuids (Suc n) (t + emit) (map_delete (x # m) ident)"
    from "2.prems" patches(2) have "ident' = ident \<or> ident' \<in> set (resolved ?rest)" by simp
    then show ?thesis
    proof
      assume "ident' = ident"
      with Promise_race_entry[OF patches(1)] show ?thesis by blast
    next
      assume "ident' \<in> set (resolved ?rest)"
      from "2.IH"[OF patches(1) refl refl refl this] map_delete_subset[of "x # m" ident]
      show ?thesis by blast
    qed
  qed
qed

lemma drain_Fails:
  "ended (drain emit uuids n now m) = Fails e' \<Longrightarrow>
   \<exists>ident t. (ident, Settles t (Inl e')) \<in> set (remaining (drain emit uuids n now m))"
proof (induction emit uuids n now m rule: drain.induct)
  case (1 emit uuids n now)
  then show ?case by simp
next
  case (2 emit uuids n now x m)
  show ?case
  proof (cases rule: drain_Cons_cases[of now x m emit uuids n])
    case stalls
    with "2.prems" show ?thesis by simp
  next
    case (fails t ident e)
    with "2.prems" have "e = e'" by simp
    with Promise_race_entry[OF fails(1)] fails(2) show ?thesis by auto
  next
    case (patches t ident element)
    let ?rest = "drain emit uuids (Suc n) (t + emit) (map_delete (x # m) ident)"
    from "2.prems" patches(2) have "ended ?rest = Fails e'" by simp
    from "2.IH"[OF patches(1) refl refl refl this] patches(2) show ?thesis by simp
  qed
qed






























section \<open>The example maps, drained\<close>

lemmas drain_eval = drain.simps Promise_race_def map_delete_def Let_def






lemma rejected_second_drain:
  "drain 0 fresh 0 0 rejected_second =
     \<lparr>resolved = [''a''], yields = yield_star (patch ''t'' ''<p>A</p>'' ''a''),
      ended = Fails (Thrown_error ''boom''),
      remaining = still_pending\<rparr>"
  by (simp add: rejected_second_def still_pending_def drain_eval fresh_def)


section \<open>Responses that share the process\<close>







lemma step_wins:
  assumes "generators p r = Awaits_race templateId raced since"
    and "Promise_race since raced = Some (t, ident, Inr element)" and "t \<le> clock p"
  shows "step uuids (Advances r) p =
     p\<lparr>registry := map_delete (registry p) ident,
       generators := (generators p)(r := At_loop_head),
       streamed := (streamed p)(r := streamed p r @ yield_star (patch templateId element ident)),
       patched := patched p @ [(r, ident)]\<rparr>"
  using assms by simp








text \<open>
  A generator that runs with no other response in between does what \<open>drain\<close> says: it
  yields the same text, patches the same keys, leaves the same map, and ends in the
  same way.
\<close>

lemma settled_by_None_later:
  "settled_by now m = None \<Longrightarrow> (t, k, r) \<in> set (settling m) \<Longrightarrow> now < t"
  by (induction now m rule: settled_by.induct) (auto split: if_splits)

lemma Promise_race_not_before:
  assumes "Promise_race now m = Some (t, k, r)"
  shows "now \<le> t"
proof (cases "settled_by now m")
  case None
  with assms have "earliest (settling m) = Some (t, k, r)" by (simp add: Promise_race_def)
  then have "(t, k, r) \<in> set (settling m)" by (rule earliest_member)
  with None have "now < t" by (rule settled_by_None_later)
  then show ?thesis by simp
next
  case (Some w)
  with assms show ?thesis by (cases w) (simp add: Promise_race_def)
qed

lemma run_append: "run uuids (evs @ evs') p = run uuids evs' (run uuids evs p)"
  by (induction evs arbitrary: p) simp_all

lemma alone_drains:
  "generators p r = At_loop_head \<Longrightarrow> registry p = m \<Longrightarrow> clock p = now \<Longrightarrow> drawn p = n \<Longrightarrow>
   streamed (run uuids (alone emit r now m) p) r
       = streamed p r @ yields (drain emit uuids n now m)
   \<and> registry (run uuids (alone emit r now m) p) = remaining (drain emit uuids n now m)
   \<and> patched (run uuids (alone emit r now m) p)
       = patched p @ map (Pair r) (resolved (drain emit uuids n now m))
   \<and> (ended (drain emit uuids n now m) \<noteq> Stalls \<longrightarrow>
        generators (run uuids (alone emit r now m) p) r = Finished (ended (drain emit uuids n now m)))"
proof (induction emit uuids n now m arbitrary: p rule: drain.induct)
  case (1 emit uuids n now)
  then show ?case by simp
next
  case (2 emit uuids n now x m)
  note gen = "2.prems"(1) and reg = "2.prems"(2) and clk = "2.prems"(3) and drw = "2.prems"(4)
  let ?a = "step uuids (Advances r) p"
  from gen reg clk drw
  have a: "?a = p\<lparr>drawn := Suc n,
        generators := (generators p)(r := Awaits_race (uuids n) (x # m) now)\<rparr>"
    by simp
  show ?case
  proof (cases rule: drain_Cons_cases[of now x m emit uuids n])
    case stalls
    from stalls(1) have s: "alone emit r now (x # m) = [Advances r]" by (simp add: alone.simps)
    show ?thesis unfolding s stalls(2) using reg by (simp del: step.simps add: a)
  next
    case (fails t ident e)
    from fails(1) have s: "alone emit r now (x # m) = [Advances r, Passes (t - now), Advances r]"
      by (simp add: alone.simps)
    from Promise_race_not_before[OF fails(1)] have le: "now \<le> t" .
    let ?b = "step uuids (Passes (t - now)) ?a"
    from le clk have b: "?b = p\<lparr>clock := t, drawn := Suc n,
        generators := (generators p)(r := Awaits_race (uuids n) (x # m) now)\<rparr>"
      unfolding a by simp
    have c: "step uuids (Advances r) ?b = ?b\<lparr>generators := (generators ?b)(r := Finished (Fails e))\<rparr>"
      unfolding b using fails(1) by simp
    have run: "run uuids [Advances r, Passes (t - now), Advances r] p = step uuids (Advances r) ?b"
      by (simp del: step.simps)
    show ?thesis unfolding s fails(2) run c unfolding b using reg by simp
  next
    case (patches t ident element)
    let ?m' = "map_delete (x # m) ident"
    from patches(1) have s: "alone emit r now (x # m) =
        [Advances r, Passes (t - now), Advances r, Passes emit] @ alone emit r (t + emit) ?m'"
      by (simp add: alone.simps)
    from Promise_race_not_before[OF patches(1)] have le: "now \<le> t" .
    let ?b = "step uuids (Passes (t - now)) ?a"
    from le clk have b: "?b = p\<lparr>clock := t, drawn := Suc n,
        generators := (generators p)(r := Awaits_race (uuids n) (x # m) now)\<rparr>"
      unfolding a by simp
    have gb: "generators ?b r = Awaits_race (uuids n) (x # m) now" "t \<le> clock ?b"
      unfolding b by simp_all
    let ?c = "step uuids (Advances r) ?b"
    have c: "?c = ?b\<lparr>registry := map_delete (registry ?b) ident,
        generators := (generators ?b)(r := At_loop_head),
        streamed := (streamed ?b)(r := streamed ?b r @ yield_star (patch (uuids n) element ident)),
        patched := patched ?b @ [(r, ident)]\<rparr>"
      by (rule step_wins[OF gb(1) patches(1) gb(2)])
    let ?d = "step uuids (Passes emit) ?c"
    have d: "generators ?d r = At_loop_head" "registry ?d = ?m'" "clock ?d = t + emit"
      "drawn ?d = Suc n" "streamed ?d r = streamed p r @ yield_star (patch (uuids n) element ident)"
      "patched ?d = patched p @ [(r, ident)]"
      unfolding c unfolding b using reg by simp_all
    have run: "run uuids (alone emit r now (x # m)) p = run uuids (alone emit r (t + emit) ?m') ?d"
      unfolding s by (simp del: step.simps add: run_append)
    note ih = "2.IH"[OF patches(1) refl refl refl d(1) d(2) d(3) d(4)]
    show ?thesis unfolding run patches(2) using ih by (simp del: step.simps add: d)
  qed
qed

section \<open>The claims\<close>

subsection \<open>C1\<close>




subsection \<open>C2\<close>

text \<open>
  C2, as amended. Whenever the pump ends, \<^verbatim>\<open>writer.close()\<close> has been called exactly
  once, in the \<^verbatim>\<open>finally\<close> block. After a pump that completes, the channel is closed and
  holds the preamble and every chunk. After a failed read of the composed node's stream
  the channel is closed in the same way, normally, with what was read before the
  failure, and the failure is only the reason the pump's promise is rejected with: the
  channel is not aborted. After a failed write the channel is errored, by the failed
  write itself, and the \<^verbatim>\<open>close\<close> of the \<^verbatim>\<open>finally\<close> block is rejected.
\<close>

theorem pump_closes_in_finally:
  "(takes_all acc (Suc (length (queue rd))) \<and> finish rd = Done \<longrightarrow>
      startStreaming acc rd new_channel =
        (Ok (), \<lparr>written = preamble # queue rd, chan_state = Closed, close_calls = 1\<rparr>))
   \<and> (takes_all acc (Suc (length (queue rd))) \<and> finish rd = Fails e \<longrightarrow>
      startStreaming acc rd new_channel =
        (Thrown e, \<lparr>written = preamble # queue rd, chan_state = Closed, close_calls = 1\<rparr>))
   \<and> (acc = Some n \<and> n \<le> length (queue rd) \<longrightarrow>
      startStreaming acc rd new_channel =
        (Thrown stream_error,
         \<lparr>written = take n (preamble # queue rd), chan_state = Errored, close_calls = 1\<rparr>))
   \<and> (fst (startStreaming acc rd new_channel) \<noteq> Hangs \<longrightarrow>
      close_calls (snd (startStreaming acc rd new_channel)) = 1)"
proof (intro conjI impI)
  assume "takes_all acc (Suc (length (queue rd))) \<and> finish rd = Done"
  then show "startStreaming acc rd new_channel =
        (Ok (), \<lparr>written = preamble # queue rd, chan_state = Closed, close_calls = 1\<rparr>)"
    by (simp add: startStreaming_all)
next
  assume "takes_all acc (Suc (length (queue rd))) \<and> finish rd = Fails e"
  then show "startStreaming acc rd new_channel =
        (Thrown e, \<lparr>written = preamble # queue rd, chan_state = Closed, close_calls = 1\<rparr>)"
    by (simp add: startStreaming_all)
next
  assume "acc = Some n \<and> n \<le> length (queue rd)"
  then show "startStreaming acc rd new_channel =
        (Thrown stream_error,
         \<lparr>written = take n (preamble # queue rd), chan_state = Errored, close_calls = 1\<rparr>)"
    by (simp add: startStreaming_break)
next
  assume h: "fst (startStreaming acc rd new_channel) \<noteq> Hangs"
  show "close_calls (snd (startStreaming acc rd new_channel)) = 1"
  proof (cases "takes_all acc (Suc (length (queue rd)))")
    case True
    with h show ?thesis by (cases "finish rd") (simp_all add: startStreaming_all)
  next
    case False
    then obtain m where "acc = Some m" "m \<le> length (queue rd)"
      by (auto simp: takes_all_def split: option.splits)
    then show ?thesis by (simp add: startStreaming_break)
  qed
qed

theorem pump_closes_in_finally_witness:
  "startStreaming None (Readable [''<p>''] Done) new_channel =
     (Ok () :: (string, unit) outcome,
      \<lparr>written = [preamble, ''<p>''], chan_state = Closed, close_calls = 1\<rparr>)
   \<and> startStreaming None (Readable [''<p>''] (Fails (Thrown_error ''boom''))) new_channel =
     (Thrown (Thrown_error ''boom'') :: (string, unit) outcome,
      \<lparr>written = [preamble, ''<p>''], chan_state = Closed, close_calls = 1\<rparr>)
   \<and> startStreaming (Some 1) (Readable [''<p>''] Done) new_channel =
     (Thrown stream_error :: (string, unit) outcome,
      \<lparr>written = [preamble], chan_state = Errored, close_calls = 1\<rparr>)"
  using
    pump_closes_in_finally[of None "Readable [''<p>''] Done :: string readable" Thrown_other 0]
    pump_closes_in_finally[of None
      "Readable [''<p>''] (Fails (Thrown_error ''boom'')) :: string readable"
      "Thrown_error ''boom''" 0]
    pump_closes_in_finally[of "Some 1" "Readable [''<p>''] Done :: string readable" Thrown_other 1]
  by (simp add: takes_all_def)

text \<open>
  C2 as stated fails where the composed node's stream fails: the page component of the
  chain returns a promise that is rejected, reading the stream fails after the first
  chunk, and the channel of the response is closed, not errored.
\<close>

theorem failed_read_closes_normally:
  "reduceRight broken_chain 0 [Data ''site'', Data ''page''] (into (Of_string [])) =
     Inr (Html [''<html>''] (Fails (Thrown_error ''boom'')))
   \<and> routeResponse keeps_up broken_chain page_ctx =
     Ok \<lparr>status = 200,
         resp_headers = [(''Content-Type'', ''text/html''), (''Set-Cookie'', ''from=site''),
                         (''Set-Cookie'', ''from=page'')],
         body = Stream_body
           \<lparr>written = [preamble, ''<html>''], chan_state = Closed, close_calls = 1\<rparr>\<rparr>"
  by (simp add: routeResponse_def broken_chain_loaders broken_chain_headers broken_chain_node
        keeps_up_def startStreaming_def writer_write_def writer_close_def new_channel_def)

subsection \<open>C3\<close>

text \<open>
  C3, as amended. A rejected promise is not caught. Only fulfilled entries are ever
  patched; when the race is won by a rejected promise, the drain loop ends there by
  throwing its reason, emitting nothing for it, and the entry stays in the pending set
  together with every entry the loop had not patched before.
\<close>

theorem rejected_subtree_ends_drain:
  "(ident \<in> set (resolved (drain emit uuids n now m)) \<longrightarrow>
      (\<exists>t element. (ident, Settles t (Inr element)) \<in> set m))
   \<and> (ended (drain emit uuids n now m) = Fails e \<longrightarrow>
      (\<exists>k t. (k, Settles t (Inl e)) \<in> set (remaining (drain emit uuids n now m))))
   \<and> (Promise_race now m = Some (t', k', Inl e') \<longrightarrow>
      drain emit uuids n now m = \<lparr>resolved = [], yields = [], ended = Fails e', remaining = m\<rparr>)
   \<and> fst ` set m = set (resolved (drain emit uuids n now m))
                      \<union> fst ` set (remaining (drain emit uuids n now m))
   \<and> set (resolved (drain emit uuids n now m))
        \<inter> fst ` set (remaining (drain emit uuids n now m)) = {}"
proof (intro conjI impI)
  assume "ident \<in> set (resolved (drain emit uuids n now m))"
  then show "\<exists>t element. (ident, Settles t (Inr element)) \<in> set m"
    by (rule drain_resolved_fulfilled)
next
  assume "ended (drain emit uuids n now m) = Fails e"
  then show "\<exists>k t. (k, Settles t (Inl e)) \<in> set (remaining (drain emit uuids n now m))"
    by (rule drain_Fails)
next
  assume r: "Promise_race now m = Some (t', k', Inl e')"
  show "drain emit uuids n now m = \<lparr>resolved = [], yields = [], ended = Fails e', remaining = m\<rparr>"
  proof (cases m)
    case Nil
    with r show ?thesis by (simp add: Promise_race_def)
  next
    case (Cons x xs)
    with r show ?thesis by (simp add: drain.simps)
  qed
next
  show "fst ` set m = set (resolved (drain emit uuids n now m))
                      \<union> fst ` set (remaining (drain emit uuids n now m))"
    using drain_keys[of m emit uuids n now] by blast
  show "set (resolved (drain emit uuids n now m))
        \<inter> fst ` set (remaining (drain emit uuids n now m)) = {}"
    using drain_keys[of m emit uuids n now] by blast
qed

text \<open>
  The first subtree is patched, the second is rejected, and the loop ends: the third,
  which would be fulfilled later, stays pending with the second.
\<close>

theorem rejected_subtree_ends_drain_witness:
  "drain 0 fresh 0 0 rejected_second =
     \<lparr>resolved = [''a''], yields = yield_star (patch ''t'' ''<p>A</p>'' ''a''),
      ended = Fails (Thrown_error ''boom''),
      remaining = still_pending\<rparr>
   \<and> (\<exists>t element. (''a'', Settles t (Inr element)) \<in> set rejected_second)
   \<and> (\<exists>k t. (k, Settles t (Inl (Thrown_error ''boom'')))
         \<in> set (remaining (drain 0 fresh 0 0 rejected_second)))
   \<and> Promise_race 10 still_pending
        = Some (20, ''b'', Inl (Thrown_error ''boom'') :: string thrown + string)
   \<and> drain 0 fresh 1 10 still_pending
        = \<lparr>resolved = [], yields = [], ended = Fails (Thrown_error ''boom''),
           remaining = still_pending\<rparr>"
proof -
  note a = rejected_subtree_ends_drain[of "''a''" 0 fresh 0 0 rejected_second "Thrown_error ''boom''"]
  note b = rejected_subtree_ends_drain[of "''a''" 0 fresh 1 10
      still_pending
      "Thrown_error ''boom''" 20 "''b''" "Thrown_error ''boom''"]
  have r: "Promise_race 10 still_pending
        = Some (20, ''b'', Inl (Thrown_error ''boom'') :: string thrown + string)"
    by (simp add: Promise_race_def still_pending_def)
  have in_a: "''a'' \<in> set (resolved (drain 0 fresh 0 0 rejected_second))"
    and e: "ended (drain 0 fresh 0 0 rejected_second) = Fails (Thrown_error ''boom'')"
    by (simp_all add: rejected_second_drain)
  have p1: "\<exists>t element. (''a'', Settles t (Inr element)) \<in> set rejected_second"
    by (rule a[THEN conjunct1, THEN mp, OF in_a])
  have p2: "\<exists>k t. (k, Settles t (Inl (Thrown_error ''boom'')))
         \<in> set (remaining (drain 0 fresh 0 0 rejected_second))"
    by (rule a[THEN conjunct2, THEN conjunct1, THEN mp, OF e])
  have p3: "drain 0 fresh 1 10 still_pending
        = \<lparr>resolved = [], yields = [], ended = Fails (Thrown_error ''boom''),
           remaining = still_pending\<rparr>"
    by (rule b[THEN conjunct2, THEN conjunct2, THEN conjunct1, THEN mp, OF r])
  show ?thesis by (intro conjI; rule rejected_second_drain p1 p2 r p3)
qed

text \<open>
  C3 as stated fails at a rejected subtree with a sibling: the loop throws, the sibling
  that is fulfilled later gets no patch, and the text of the \<^verbatim>\<open>Resolve\<close> node ends with
  the failure.
\<close>

theorem rejected_subtree_blocks_sibling_counterexample:
  "drain 0 fresh 0 0 one_rejected =
     \<lparr>resolved = [], yields = [], ended = Fails (Thrown_error ''boom''), remaining = one_rejected\<rparr>
   \<and> (''b'', Settles 20 (Inr ''<p>B</p>'')) \<in> set one_rejected
   \<and> ''b'' \<notin> set (resolved (drain 0 fresh 0 0 one_rejected))
   \<and> ending (fst (consume 0 fresh 0 (Resolve None one_rejected) one_rejected))
       = Fails (Thrown_error ''boom'')
   \<and> snd (consume 0 fresh 0 (Resolve None one_rejected) one_rejected) = one_rejected"
  by (simp add: one_rejected_def drain_eval Resolve_def)

subsection \<open>C4\<close>

text \<open>
  C4, as amended. For every matched request, the chain being the matched one without
  its outermost fragment when the request carries \<^verbatim>\<open>fx-request\<close>, and the leaf the last
  fragment of that chain:
  \<^item> if the method is GET and the leaf has a component, and the loaders, the \<^verbatim>\<open>headers\<close>
    functions and the components of the chain complete without throwing, \<^verbatim>\<open>handle\<close>
    returns a streamed response with status 200 whose headers begin with
    \<^verbatim>\<open>Content-Type: text/html\<close>;
  \<^item> if the method is GET and the leaf has a loader and no component, \<^verbatim>\<open>handle\<close> returns
    the \<^verbatim>\<open>Response\<close> the loader returns as it is, and the data it returns JSON-encoded;
  \<^item> if the method is not GET and the leaf has an action, the same holds of the action;
  \<^item> if the method is not GET and there is no action, \<^verbatim>\<open>handle\<close> returns 404.
\<close>

theorem handle_dispatch:
  fixes req :: request and frags :: "('v, 'e) fragment list" and args :: 'e
  assumes m: "match_routes routes (url req) = Some (frags, groups)"
  defines "fragments \<equiv> chain_of req frags"
      and "ctx \<equiv> \<lparr>request = req, params = groups, context_args = args\<rparr>"
  shows
   "(req_method req = ''GET'' \<and> leaf_of fragments = Some leaf_d \<and> default_export leaf_d = Some C
       \<and> run_loaders fragments ctx = Ok loaders
       \<and> mergeFragmentHeaders [(''Content-Type'', ''text/html'')] ctx fragments loaders = Ok hs
       \<and> reduceRight fragments 0 loaders (into (Of_string [])) = Inr node
     \<longrightarrow> handle routes tr req args =
           Some (\<lparr>status = 200, resp_headers = hs,
                  body = Stream_body (snd (startStreaming (accepts tr)
                           (toReadableStream (dequeued tr) node) new_channel))\<rparr>, [])
         \<and> (\<exists>rest. hs = (''Content-Type'', ''text/html'') # rest))
  \<and> (req_method req = ''GET'' \<and> leaf_of fragments = Some leaf_l \<and> default_export leaf_l = None
       \<and> loader leaf_l = Some l
     \<longrightarrow> (await_call (l ctx) = Ok (Resp r) \<longrightarrow> handle routes tr req args = Some (r, []))
         \<and> (await_call (l ctx) = Ok (Data v) \<longrightarrow>
              handle routes tr req args = Some (json_response v, [])))
  \<and> (req_method req \<noteq> ''GET'' \<and> leaf_of fragments = Some leaf_a \<and> action leaf_a = Some a
     \<longrightarrow> (await_call (a ctx) = Ok (Resp ra) \<longrightarrow> handle routes tr req args = Some (ra, []))
         \<and> (await_call (a ctx) = Ok (Data va) \<longrightarrow>
              handle routes tr req args = Some (json_response va, [])))
  \<and> (req_method req \<noteq> ''GET'' \<and> Option.bind (leaf_of fragments) action = None
     \<longrightarrow> handle routes tr req args = Some (null_response 404, []))"
proof (intro conjI impI)
  assume a: "req_method req = ''GET'' \<and> leaf_of fragments = Some leaf_d \<and> default_export leaf_d = Some C
       \<and> run_loaders fragments ctx = Ok loaders
       \<and> mergeFragmentHeaders [(''Content-Type'', ''text/html'')] ctx fragments loaders = Ok hs
       \<and> reduceRight fragments 0 loaders (into (Of_string [])) = Inr node"
  then have "handle routes tr req args = catch_block (routeResponse tr fragments ctx)"
    using handle_document[OF m, of leaf_d C tr args] by (simp add: fragments_def ctx_def)
  with a show "handle routes tr req args =
           Some (\<lparr>status = 200, resp_headers = hs,
                  body = Stream_body (snd (startStreaming (accepts tr)
                           (toReadableStream (dequeued tr) node) new_channel))\<rparr>, [])"
    by (simp add: routeResponse_Ok)
  from a mergeFragmentHeaders_extends[of "[(''Content-Type'', ''text/html'')]" ctx fragments loaders hs]
  show "\<exists>rest. hs = (''Content-Type'', ''text/html'') # rest" by auto
next
  assume a: "req_method req = ''GET'' \<and> leaf_of fragments = Some leaf_l \<and> default_export leaf_l = None
       \<and> loader leaf_l = Some l"
  then have h: "handle routes tr req args = catch_block (dataResponse l ctx)"
    using handle_loader[OF m, of leaf_l l tr args] by (simp add: fragments_def ctx_def)
  { assume "await_call (l ctx) = Ok (Resp r)"
    with h show "handle routes tr req args = Some (r, [])" by (simp add: dataResponse_Resp) }
  { assume "await_call (l ctx) = Ok (Data v)"
    with h show "handle routes tr req args = Some (json_response v, [])"
      by (simp add: dataResponse_Data) }
next
  assume a: "req_method req \<noteq> ''GET'' \<and> leaf_of fragments = Some leaf_a \<and> action leaf_a = Some a"
  then have h: "handle routes tr req args = catch_block (dataResponse a ctx)"
    using handle_action[OF m, of leaf_a a tr args] by (simp add: fragments_def ctx_def)
  { assume "await_call (a ctx) = Ok (Resp ra)"
    with h show "handle routes tr req args = Some (ra, [])" by (simp add: dataResponse_Resp) }
  { assume "await_call (a ctx) = Ok (Data va)"
    with h show "handle routes tr req args = Some (json_response va, [])"
      by (simp add: dataResponse_Data) }
next
  assume "req_method req \<noteq> ''GET'' \<and> Option.bind (leaf_of fragments) action = None"
  then show "handle routes tr req args = Some (null_response 404, [])"
    using handle_no_action[OF m, of tr args] by (simp add: fragments_def)
qed

text \<open>
  The example table answers a GET of the page with the streamed document, a GET or POST
  of the data routes with the JSON of the data or with the returned response, and a POST
  of the page, which has no action, with 404.
\<close>

theorem handle_dispatch_witness:
  "handle site good_client (get_request ''/page'') () =
     Some (\<lparr>status = 200,
            resp_headers = [(''Content-Type'', ''text/html''), (''Set-Cookie'', ''from=site''), (''Set-Cookie'', ''from=page'')],
            body = Stream_body
              \<lparr>written = [preamble, ''<html>'', ''<main>'', [], ''</main>'', ''</html>''],
               chan_state = Closed, close_calls = 1\<rparr>\<rparr>, [])
   \<and> handle site good_client (get_request ''/api'') () = Some (json_response ''users'', [])
   \<and> handle site good_client (get_request ''/raw'') () = Some (see_other, [])
   \<and> handle site good_client (post_request ''/api'') () = Some (see_other, [])
   \<and> handle site good_client (post_request ''/raw'') () = Some (json_response ''saved'', [])
   \<and> handle site good_client (post_request ''/page'') () = Some (null_response 404, [])"
proof -
  have get: "\<And>u. req_method (get_request u) = ''GET''" "\<And>u. url (get_request u) = u"
    by (simp_all add: get_request_def)
  have post: "\<And>u. req_method (post_request u) \<noteq> ''GET''" "\<And>u. url (post_request u) = u"
    by (simp_all add: post_request_def)
  have page: "handle site good_client (get_request ''/page'') () =
     Some (\<lparr>status = 200, resp_headers = [(''Content-Type'', ''text/html''), (''Set-Cookie'', ''from=site''), (''Set-Cookie'', ''from=page'')],
            body = Stream_body
              \<lparr>written = [preamble, ''<html>'', ''<main>'', [], ''</main>'', ''</html>''],
               chan_state = Closed, close_calls = 1\<rparr>\<rparr>, [])"
  proof -
    have m: "match_routes site (url (get_request ''/page'')) = Some (document_chain, [])"
      by (simp add: get site_page)
    have lf: "leaf_of (chain_of (get_request ''/page'') document_chain) = Some page_module"
      by (simp add: chain_of_get document_chain_def leaf_of_pair fragment_of_def)
    have d: "default_export page_module = Some (wrap ''main'')" by (simp add: page_module_def)
    have ls: "run_loaders (chain_of (get_request ''/page'') document_chain) \<lparr>request = get_request ''/page'', params = [], context_args = ()\<rparr>
         = Ok [Data ''site'', Data ''page'']"
      by (simp add: chain_of_get page_ctx_eq document_chain_loaders)
    have hs: "mergeFragmentHeaders [(''Content-Type'', ''text/html'')] \<lparr>request = get_request ''/page'', params = [], context_args = ()\<rparr>
         (chain_of (get_request ''/page'') document_chain) [Data ''site'', Data ''page''] = Ok [(''Content-Type'', ''text/html''), (''Set-Cookie'', ''from=site''), (''Set-Cookie'', ''from=page'')]"
      by (simp add: chain_of_get page_ctx_eq document_chain_headers)
    have n: "reduceRight (chain_of (get_request ''/page'') document_chain) 0
         [Data ''site'', Data ''page''] (into (Of_string []))
         = Inr (Html [''<html>'', ''<main>'', [], ''</main>'', ''</html>''] Done)"
      by (simp add: chain_of_get document_chain_node)
    from handle_dispatch[OF m]
      get(1) lf d ls hs n
    show ?thesis
      by (simp add: good_client_def startStreaming_def writer_write_def writer_close_def
          new_channel_def)
  qed
  have api_get: "handle site good_client (get_request ''/api'') () = Some (json_response ''users'', [])"
  proof -
    have m: "match_routes site (url (get_request ''/api'')) = Some ([fragment_of ''doc'' doc_module, fragment_of ''api'' api_module], [])"
      by (simp add: get site_api)
    have lf: "leaf_of (chain_of (get_request ''/api'') [fragment_of ''doc'' doc_module, fragment_of ''api'' api_module]) = Some api_module"
      by (simp add: chain_of_get leaf_of_pair fragment_of_def)
    have d: "default_export api_module = None" "loader api_module = Some (gives (Data ''users''))"
      by (simp_all add: api_module_def)
    have c: "await_call (gives (Data ''users'') \<lparr>request = get_request ''/api'', params = [], context_args = ()\<rparr>) = Ok (Data ''users'')"
      by (rule await_gives)
    from handle_dispatch[OF m]
      get(1) lf d c
    show ?thesis by simp
  qed
  have raw_get: "handle site good_client (get_request ''/raw'') () = Some (see_other, [])"
  proof -
    have m: "match_routes site (url (get_request ''/raw'')) = Some ([fragment_of ''doc'' doc_module, fragment_of ''raw'' raw_module], [])"
      by (simp add: get site_raw)
    have lf: "leaf_of (chain_of (get_request ''/raw'') [fragment_of ''doc'' doc_module, fragment_of ''raw'' raw_module]) = Some raw_module"
      by (simp add: chain_of_get leaf_of_pair fragment_of_def)
    have d: "default_export raw_module = None" "loader raw_module = Some (gives (Resp see_other))"
      by (simp_all add: raw_module_def)
    have c: "await_call (gives (Resp see_other) \<lparr>request = get_request ''/raw'', params = [], context_args = ()\<rparr>) = Ok (Resp see_other)"
      by (rule await_gives)
    from handle_dispatch[OF m]
      get(1) lf d c
    show ?thesis by simp
  qed
  have api_post: "handle site good_client (post_request ''/api'') () = Some (see_other, [])"
  proof -
    have m: "match_routes site (url (post_request ''/api'')) = Some ([fragment_of ''doc'' doc_module, fragment_of ''api'' api_module], [])"
      by (simp add: post site_api)
    have lf: "leaf_of (chain_of (post_request ''/api'') [fragment_of ''doc'' doc_module, fragment_of ''api'' api_module]) = Some api_module"
      by (simp add: chain_of_post leaf_of_pair fragment_of_def)
    have d: "action api_module = Some (gives (Resp see_other))"
      by (simp_all add: api_module_def)
    have c: "await_call (gives (Resp see_other) \<lparr>request = post_request ''/api'', params = [], context_args = ()\<rparr>) = Ok (Resp see_other)"
      by (rule await_gives)
    from handle_dispatch[OF m]
      post(1) lf d c
    show ?thesis by simp
  qed
  have raw_post: "handle site good_client (post_request ''/raw'') () = Some (json_response ''saved'', [])"
  proof -
    have m: "match_routes site (url (post_request ''/raw'')) = Some ([fragment_of ''doc'' doc_module, fragment_of ''raw'' raw_module], [])"
      by (simp add: post site_raw)
    have lf: "leaf_of (chain_of (post_request ''/raw'') [fragment_of ''doc'' doc_module, fragment_of ''raw'' raw_module]) = Some raw_module"
      by (simp add: chain_of_post leaf_of_pair fragment_of_def)
    have d: "action raw_module = Some (gives (Data ''saved''))"
      by (simp_all add: raw_module_def)
    have c: "await_call (gives (Data ''saved'') \<lparr>request = post_request ''/raw'', params = [], context_args = ()\<rparr>) = Ok (Data ''saved'')"
      by (rule await_gives)
    from handle_dispatch[OF m]
      post(1) lf d c
    show ?thesis by simp
  qed
  have page_post: "handle site good_client (post_request ''/page'') () = Some (null_response 404, [])"
  proof -
    have m: "match_routes site (url (post_request ''/page'')) = Some (document_chain, [])"
      by (simp add: post site_page)
    have lf: "Option.bind (leaf_of (chain_of (post_request ''/page'') document_chain)) action = None"
      by (simp add: chain_of_post document_chain_def leaf_of_pair fragment_of_def page_module_def)
    from handle_dispatch[OF m]
      post(1) lf
    show ?thesis by simp
  qed
  from page api_get raw_get api_post raw_post page_post show ?thesis
    by blast
qed

text \<open>
  C4 as stated fails where a loader of the chain fails: the request is matched, the
  method is GET and the leaf has a component, and \<^verbatim>\<open>handle\<close> returns 500, having logged
  the message of the error.
\<close>

theorem handle_loader_error_counterexample:
  "match_routes site (url (get_request ''/crash'')) = Some (crash_chain, [])
   \<and> req_method (get_request ''/crash'') = ''GET''
   \<and> leaf_of (chain_of (get_request ''/crash'') crash_chain)
       = Some (page_module\<lparr>loader := Some (rejects_with (Thrown_error ''boom''))\<rparr>)
   \<and> default_export (page_module\<lparr>loader := Some (rejects_with (Thrown_error ''boom''))\<rparr>)
       = Some (wrap ''main'')
   \<and> handle site good_client (get_request ''/crash'') () = Some (null_response 500, [''boom''])"
proof -
  have m: "match_routes site (url (get_request ''/crash'')) = Some (crash_chain, [])"
    by (simp add: get_request_def site_crash)
  have g: "req_method (get_request ''/crash'') = ''GET''" by (simp add: get_request_def)
  have l: "leaf_of (chain_of (get_request ''/crash'') crash_chain)
       = Some (page_module\<lparr>loader := Some (rejects_with (Thrown_error ''boom''))\<rparr>)"
    by (simp add: leaf_of_def chain_of_def get_request_def has_header_def crash_chain_def fragment_of_def)
  have d: "default_export (page_module\<lparr>loader := Some (rejects_with (Thrown_error ''boom''))\<rparr>)
       = Some (wrap ''main'')" by (simp add: page_module_def)
  from handle_document[OF m g l d, of good_client "()"]
  have "handle site good_client (get_request ''/crash'') () = Some (null_response 500, [''boom''])"
    by (simp add: routeResponse_def crash_chain_loaders chain_of_def get_request_def has_header_def)
  with m g l d show ?thesis by blast
qed

subsection \<open>C5\<close>

text \<open>
  C5, as amended. When a \<^verbatim>\<open>Response\<close> is thrown before the document response is
  returned, \<^verbatim>\<open>handle\<close> returns exactly that \<^verbatim>\<open>Response\<close>, logs nothing and builds no
  stream: on the document path when the loaders fail with it, when a \<^verbatim>\<open>headers\<close>
  function throws it, or when a component throws it while the chain is composed; on the
  data paths when the leaf's loader or action throws it. The loaders fail with it when
  some loader fails and every loader that fails does so with this \<^verbatim>\<open>Response\<close>. (A
  component whose promise is rejected with a \<^verbatim>\<open>Response\<close> is not among these cases.)
\<close>

theorem thrown_response_returned_verbatim:
  fixes req :: request and frags :: "('v, 'e) fragment list" and args :: 'e
  assumes m: "match_routes routes (url req) = Some (frags, groups)"
  defines "fragments \<equiv> chain_of req frags"
      and "ctx \<equiv> \<lparr>request = req, params = groups, context_args = args\<rparr>"
  shows
   "(req_method req = ''GET'' \<and> leaf_of fragments = Some leaf_d \<and> default_export leaf_d = Some C
       \<and> (run_loaders fragments ctx = Thrown (Thrown_response r)
          \<or> run_loaders fragments ctx = Ok loaders
            \<and> mergeFragmentHeaders [(''Content-Type'', ''text/html'')] ctx fragments loaders
                = Thrown (Thrown_response r)
          \<or> run_loaders fragments ctx = Ok loaders
            \<and> mergeFragmentHeaders [(''Content-Type'', ''text/html'')] ctx fragments loaders = Ok hs
            \<and> reduceRight fragments 0 loaders (into (Of_string [])) = Inl (Thrown_response r))
     \<longrightarrow> handle routes tr req args = Some (r, []))
  \<and> (req_method req = ''GET'' \<and> leaf_of fragments = Some leaf_l \<and> default_export leaf_l = None
       \<and> loader leaf_l = Some l \<and> await_call (l ctx) = Thrown (Thrown_response r)
     \<longrightarrow> handle routes tr req args = Some (r, []))
  \<and> (req_method req \<noteq> ''GET'' \<and> leaf_of fragments = Some leaf_a \<and> action leaf_a = Some a
       \<and> await_call (a ctx) = Thrown (Thrown_response r)
     \<longrightarrow> handle routes tr req args = Some (r, []))
  \<and> (failed_calls (map (call_loader ctx) fragments) \<noteq> []
       \<and> set (failed_calls (map (call_loader ctx) fragments)) \<subseteq> {Thrown_response r}
     \<longrightarrow> run_loaders fragments ctx = Thrown (Thrown_response r))"
proof (intro conjI impI)
  assume a: "req_method req = ''GET'' \<and> leaf_of fragments = Some leaf_d \<and> default_export leaf_d = Some C
       \<and> (run_loaders fragments ctx = Thrown (Thrown_response r)
          \<or> run_loaders fragments ctx = Ok loaders
            \<and> mergeFragmentHeaders [(''Content-Type'', ''text/html'')] ctx fragments loaders
                = Thrown (Thrown_response r)
          \<or> run_loaders fragments ctx = Ok loaders
            \<and> mergeFragmentHeaders [(''Content-Type'', ''text/html'')] ctx fragments loaders = Ok hs
            \<and> reduceRight fragments 0 loaders (into (Of_string [])) = Inl (Thrown_response r))"
  then have h: "handle routes tr req args = catch_block (routeResponse tr fragments ctx)"
    using handle_document[OF m, of leaf_d C tr args] by (simp add: fragments_def ctx_def)
  from a have "routeResponse tr fragments ctx = Thrown (Thrown_response r)"
    by (auto simp: routeResponse_def)
  with h show "handle routes tr req args = Some (r, [])" by simp
next
  assume a: "req_method req = ''GET'' \<and> leaf_of fragments = Some leaf_l \<and> default_export leaf_l = None
       \<and> loader leaf_l = Some l \<and> await_call (l ctx) = Thrown (Thrown_response r)"
  then have "handle routes tr req args = catch_block (dataResponse l ctx)"
    using handle_loader[OF m, of leaf_l l tr args] by (simp add: fragments_def ctx_def)
  with a show "handle routes tr req args = Some (r, [])"
    by (simp add: dataResponse_Thrown)
next
  assume a: "req_method req \<noteq> ''GET'' \<and> leaf_of fragments = Some leaf_a \<and> action leaf_a = Some a
       \<and> await_call (a ctx) = Thrown (Thrown_response r)"
  then have "handle routes tr req args = catch_block (dataResponse a ctx)"
    using handle_action[OF m, of leaf_a a tr args] by (simp add: fragments_def ctx_def)
  with a show "handle routes tr req args = Some (r, [])"
    by (simp add: dataResponse_Thrown)
next
  assume "failed_calls (map (call_loader ctx) fragments) \<noteq> []
       \<and> set (failed_calls (map (call_loader ctx) fragments)) \<subseteq> {Thrown_response r}"
  then show "run_loaders fragments ctx = Thrown (Thrown_response r)"
    by (simp add: run_loaders_same_failure)
qed

text \<open>
  The 303 redirect to \<^verbatim>\<open>/login\<close>, thrown by a loader of the chain, by a \<^verbatim>\<open>headers\<close>
  function, by a component, by the loader and by the action of a data route, is what
  \<^verbatim>\<open>handle\<close> returns.
\<close>

theorem thrown_response_returned_verbatim_witness:
  "handle site good_client (get_request ''/guarded'') () = Some (see_other, [])
   \<and> handle site good_client (get_request ''/header'') () = Some (see_other, [])
   \<and> handle site good_client (get_request ''/thrower'') () = Some (see_other, [])
   \<and> handle site good_client (get_request ''/locked'') () = Some (see_other, [])
   \<and> handle site good_client (post_request ''/locked'') () = Some (see_other, [])
   \<and> status see_other = 303 \<and> resp_headers see_other = [(''Location'', ''/login'')]"
proof -
  have get: "\<And>u. req_method (get_request u) = ''GET''" "\<And>u. url (get_request u) = u"
    by (simp_all add: get_request_def)
  have post: "\<And>u. req_method (post_request u) \<noteq> ''GET''" "\<And>u. url (post_request u) = u"
    by (simp_all add: post_request_def)
  have guarded: "handle site good_client (get_request ''/guarded'') () = Some (see_other, [])"
  proof -
    have m: "match_routes site (url (get_request ''/guarded'')) = Some (guarded_chain, [])"
      by (simp add: get site_guarded)
    have lf: "leaf_of (chain_of (get_request ''/guarded'') guarded_chain)
        = Some (page_module\<lparr>loader := Some (rejects_with (Thrown_response see_other))\<rparr>)"
      by (simp add: chain_of_get guarded_chain_def leaf_of_pair fragment_of_def)
    have d: "default_export (page_module\<lparr>loader := Some (rejects_with (Thrown_response see_other))\<rparr>)
        = Some (wrap ''main'')" by (simp add: page_module_def)
    have f: "failed_calls (map (call_loader \<lparr>request = get_request ''/guarded'', params = [], context_args = ()\<rparr>)
                (chain_of (get_request ''/guarded'') guarded_chain)) \<noteq> []"
      "set (failed_calls (map (call_loader \<lparr>request = get_request ''/guarded'', params = [], context_args = ()\<rparr>)
                (chain_of (get_request ''/guarded'') guarded_chain))) \<subseteq> {Thrown_response see_other}"
      by (simp_all add: chain_of_get guarded_chain_failed)
    note i = thrown_response_returned_verbatim[OF m]
    from i f have "run_loaders (chain_of (get_request ''/guarded'') guarded_chain)
        \<lparr>request = get_request ''/guarded'', params = [], context_args = ()\<rparr> = Thrown (Thrown_response see_other)"
      by blast
    with i get(1) lf d show ?thesis by blast
  qed
  have header: "handle site good_client (get_request ''/header'') () = Some (see_other, [])"
  proof -
    have m: "match_routes site (url (get_request ''/header'')) = Some (header_thrower_chain, [])"
      by (simp add: get site_header)
    have lf: "leaf_of (chain_of (get_request ''/header'') header_thrower_chain)
        = Some (page_module\<lparr>headers :=
           Some (\<lambda>ctx loaderData. Throws_sync (Thrown_response see_other))\<rparr>)"
      by (simp add: chain_of_get header_thrower_chain_def leaf_of_pair fragment_of_def)
    have d: "default_export (page_module\<lparr>headers :=
           Some (\<lambda>ctx loaderData. Throws_sync (Thrown_response see_other))\<rparr>)
        = Some (wrap ''main'')" by (simp add: page_module_def)
    have ls: "run_loaders (chain_of (get_request ''/header'') header_thrower_chain)
        \<lparr>request = get_request ''/header'', params = [], context_args = ()\<rparr> = Ok [Data ''site'', Data ''page'']"
      by (simp add: chain_of_get header_thrower_chain_loaders)
    have hs: "mergeFragmentHeaders [(''Content-Type'', ''text/html'')] \<lparr>request = get_request ''/header'', params = [], context_args = ()\<rparr>
         (chain_of (get_request ''/header'') header_thrower_chain) [Data ''site'', Data ''page'']
         = Thrown (Thrown_response see_other)"
      by (simp add: chain_of_get header_thrower_chain_headers)
    from thrown_response_returned_verbatim[OF m]
      get(1) lf d ls hs
    show ?thesis by blast
  qed
  have thrower: "handle site good_client (get_request ''/thrower'') () = Some (see_other, [])"
  proof -
    have m: "match_routes site (url (get_request ''/thrower'')) = Some (thrower_chain, [])"
      by (simp add: get site_thrower)
    have lf: "leaf_of (chain_of (get_request ''/thrower'') thrower_chain)
        = Some (page_module\<lparr>default_export := Some (throwing (Thrown_response see_other))\<rparr>)"
      by (simp add: chain_of_get thrower_chain_def leaf_of_pair fragment_of_def)
    have d: "default_export (page_module\<lparr>default_export := Some (throwing (Thrown_response see_other))\<rparr>)
        = Some (throwing (Thrown_response see_other))" by simp
    have ls: "run_loaders (chain_of (get_request ''/thrower'') thrower_chain)
        \<lparr>request = get_request ''/thrower'', params = [], context_args = ()\<rparr> = Ok [Data ''site'', Data ''page'']"
      by (simp add: chain_of_get thrower_chain_loaders)
    have hs: "mergeFragmentHeaders [(''Content-Type'', ''text/html'')] \<lparr>request = get_request ''/thrower'', params = [], context_args = ()\<rparr>
         (chain_of (get_request ''/thrower'') thrower_chain) [Data ''site'', Data ''page'']
         = Ok [(''Content-Type'', ''text/html''), (''Set-Cookie'', ''from=site''), (''Set-Cookie'', ''from=page'')]"
      by (simp add: chain_of_get thrower_chain_headers)
    have n: "reduceRight (chain_of (get_request ''/thrower'') thrower_chain) 0
         [Data ''site'', Data ''page''] (into (Of_string [])) = Inl (Thrown_response see_other)"
      unfolding chain_of_get by (rule thrower_chain_node)
    from thrown_response_returned_verbatim[OF m]
      get(1) lf d ls hs n
    show ?thesis by blast
  qed
  have locked_get: "handle site good_client (get_request ''/locked'') () = Some (see_other, [])"
  proof -
    have m: "match_routes site (url (get_request ''/locked'')) = Some ([fragment_of ''doc'' doc_module, fragment_of ''locked'' locked_module], [])"
      by (simp add: get site_locked)
    have lf: "leaf_of (chain_of (get_request ''/locked'') [fragment_of ''doc'' doc_module, fragment_of ''locked'' locked_module]) = Some locked_module"
      by (simp add: chain_of_get leaf_of_pair fragment_of_def)
    have d: "default_export locked_module = None"
      "loader locked_module = Some (rejects_with (Thrown_response see_other))"
      by (simp_all add: locked_module_def)
    have c: "await_call (rejects_with (Thrown_response see_other) \<lparr>request = get_request ''/locked'', params = [], context_args = ()\<rparr>)
         = Thrown (Thrown_response see_other)"
      by (rule await_rejects_with)
    from thrown_response_returned_verbatim[OF m]
      get(1) lf d c
    show ?thesis by blast
  qed
  have locked_post: "handle site good_client (post_request ''/locked'') () = Some (see_other, [])"
  proof -
    have m: "match_routes site (url (post_request ''/locked'')) = Some ([fragment_of ''doc'' doc_module, fragment_of ''locked'' locked_module], [])"
      by (simp add: post site_locked)
    have lf: "leaf_of (chain_of (post_request ''/locked'') [fragment_of ''doc'' doc_module, fragment_of ''locked'' locked_module]) = Some locked_module"
      by (simp add: chain_of_post leaf_of_pair fragment_of_def)
    have d: "action locked_module = Some (rejects_with (Thrown_response see_other))"
      by (simp_all add: locked_module_def)
    have c: "await_call (rejects_with (Thrown_response see_other) \<lparr>request = post_request ''/locked'', params = [], context_args = ()\<rparr>)
         = Thrown (Thrown_response see_other)"
      by (rule await_rejects_with)
    from thrown_response_returned_verbatim[OF m]
      post(1) lf d c
    show ?thesis by blast
  qed
  have "status see_other = 303 \<and> resp_headers see_other = [(''Location'', ''/login'')]"
    by (simp add: see_other_def)
  with guarded header thrower locked_get locked_post show ?thesis by blast
qed

text \<open>
  C5 as stated fails for a component that returns a promise: the promise of the page
  component is rejected with the 303 response, and \<^verbatim>\<open>handle\<close> returns the streamed 200
  response, whose stream ends after the first chunk. It fails as well when another
  loader has failed before: the page loader is rejected with the 303 response at 3, the
  document loader with an error at 1, and \<^verbatim>\<open>handle\<close> returns 500.
\<close>

theorem async_component_response_counterexample:
  "match_routes site (url (get_request ''/late'')) = Some (late_chain, [])
   \<and> leaf_of (chain_of (get_request ''/late'') late_chain)
       = Some (page_module\<lparr>default_export := Some (rejecting (Thrown_response see_other))\<rparr>)
   \<and> rejecting (Thrown_response see_other) (Data ''page'') (Html [[]] Done)
       = Inr (Promised (Settles 1 (Inl (Thrown_response see_other))))
   \<and> handle site keeps_up (get_request ''/late'') () =
       Some (\<lparr>status = 200,
              resp_headers = [(''Content-Type'', ''text/html''), (''Set-Cookie'', ''from=site''),
                              (''Set-Cookie'', ''from=page'')],
              body = Stream_body
                \<lparr>written = [preamble, ''<html>''], chan_state = Closed, close_calls = 1\<rparr>\<rparr>, [])
   \<and> status see_other = 303
   \<and> call_loader \<lparr>request = get_request ''/racing'', params = [], context_args = ()\<rparr>
        (racing_chain ! 1) = Returns (Settles 3 (Inl (Thrown_response see_other)))
   \<and> handle site keeps_up (get_request ''/racing'') () = Some (null_response 500, [''boom''])"
proof -
  have racing: "handle site keeps_up (get_request ''/racing'') () = Some (null_response 500, [''boom''])"
  proof -
    have m: "match_routes site (url (get_request ''/racing'')) = Some (racing_chain, [])"
      by (simp add: get_request_def site_racing)
    have g: "req_method (get_request ''/racing'') = ''GET''" by (simp add: get_request_def)
    have l: "leaf_of (chain_of (get_request ''/racing'') racing_chain)
       = Some (page_module\<lparr>loader := Some (rejects_with (Thrown_response see_other))\<rparr>)"
      by (simp add: chain_of_get racing_chain_def leaf_of_pair fragment_of_def)
    have d: "default_export (page_module\<lparr>loader := Some (rejects_with (Thrown_response see_other))\<rparr>)
       = Some (wrap ''main'')" by (simp add: page_module_def)
    from handle_document[OF m g l d, of keeps_up "()"] show ?thesis
      by (simp add: chain_of_get routeResponse_def racing_chain_loaders)
  qed
  have thrown: "call_loader \<lparr>request = get_request ''/racing'', params = [], context_args = ()\<rparr>
        (racing_chain ! 1) = Returns (Settles 3 (Inl (Thrown_response see_other)))"
    by (simp add: racing_chain_def fragment_of_def page_module_def call_loader_def rejects_with_def)
  have m: "match_routes site (url (get_request ''/late'')) = Some (late_chain, [])"
    by (simp add: get_request_def site_late)
  have g: "req_method (get_request ''/late'') = ''GET''" by (simp add: get_request_def)
  have l: "leaf_of (chain_of (get_request ''/late'') late_chain)
       = Some (page_module\<lparr>default_export := Some (rejecting (Thrown_response see_other))\<rparr>)"
    by (simp add: chain_of_get late_chain_def leaf_of_pair fragment_of_def)
  have d: "default_export (page_module\<lparr>default_export := Some (rejecting (Thrown_response see_other))\<rparr>)
       = Some (rejecting (Thrown_response see_other))" by simp
  from handle_document[OF m g l d, of keeps_up "()"]
  have "handle site keeps_up (get_request ''/late'') () =
       Some (\<lparr>status = 200,
              resp_headers = [(''Content-Type'', ''text/html''), (''Set-Cookie'', ''from=site''),
                              (''Set-Cookie'', ''from=page'')],
              body = Stream_body
                \<lparr>written = [preamble, ''<html>''], chan_state = Closed, close_calls = 1\<rparr>\<rparr>, [])"
    by (simp add: chain_of_get routeResponse_def late_chain_loaders late_chain_headers
        late_chain_node keeps_up_def startStreaming_def writer_write_def writer_close_def
        new_channel_def)
  moreover have "rejecting (Thrown_response see_other) (Data ''page'') (Html [[]] Done)
       = Inr (Promised (Settles 1 (Inl (Thrown_response see_other))))"
    by (simp add: rejecting_def)
  moreover have "status see_other = 303" by (simp add: see_other_def)
  ultimately show ?thesis using m l racing thrown by blast
qed

subsection \<open>C6\<close>

text \<open>
  C6. Matching is order-sensitive and the first match wins: when a pattern of the table
  matches the path and no pattern before it does, its fragment chain and its extracted
  parameters are selected, whatever stands after it in the table (further matching
  patterns included), and \<^verbatim>\<open>handle\<close> answers as it would for a table with this route
  alone. No best or longest match is searched.
\<close>

theorem match_routes_first_match_wins:
  assumes "\<forall>r \<in> set before. fst r (url req) = None"
      and "pattern (url req) = Some groups"
  shows "match_routes (before @ (pattern, frags) # after) (url req) = Some (frags, groups)
       \<and> handle (before @ (pattern, frags) # after) tr req args
         = handle [(pattern, frags)] tr req args"
  using match_routes_skips[of before "url req" pattern groups frags after] assms
  by (simp add: handle_def)

text \<open>
  At \<^verbatim>\<open>/users/new\<close> the pattern \<^verbatim>\<open>/about\<close> does not match and both the literal and the
  parameter pattern do; whichever of the two stands first in the table is taken.
\<close>

theorem match_routes_first_match_wins_witness:
  "exactly ''/about'' ''/users/new'' = None
   \<and> users_new ''/users/new'' = Some []
   \<and> users_id ''/users/new'' = Some [(''id'', ''new'')]
   \<and> match_routes [(exactly ''/about'', [fragment_of ''about'' no_exports]),
                    (users_new, [fragment_of ''new'' no_exports]),
                    (users_id, [fragment_of ''user'' no_exports])] ''/users/new''
       = Some ([fragment_of ''new'' no_exports], [])
   \<and> match_routes [(exactly ''/about'', [fragment_of ''about'' no_exports]),
                    (users_id, [fragment_of ''user'' no_exports]),
                    (users_new, [fragment_of ''new'' no_exports])] ''/users/new''
       = Some ([fragment_of ''user'' no_exports], [(''id'', ''new'')])"
proof -
  have u: "url (get_request ''/users/new'') = ''/users/new''" by (simp add: get_request_def)
  have before: "\<forall>r \<in> set [(exactly ''/about'', [fragment_of ''about'' no_exports])].
      fst r (url (get_request ''/users/new'')) = None"
    by (simp add: u exactly_def)
  have lit: "users_new (url (get_request ''/users/new'')) = Some []"
    by (simp add: u users_new_def)
  have par: "users_id (url (get_request ''/users/new'')) = Some [(''id'', ''new'')]"
    by (simp add: u users_id_def)
  note first = match_routes_first_match_wins[where
      before="[(exactly ''/about'', [fragment_of ''about'' no_exports])]"
      and req="get_request ''/users/new''" and tr=good_client and args="()"]
  from first[where pattern=users_new and groups="[]"
        and frags="[fragment_of ''new'' no_exports]"
        and after="[(users_id, [fragment_of ''user'' no_exports])]", OF before lit]
    first[where pattern=users_id and groups="[(''id'', ''new'')]"
        and frags="[fragment_of ''user'' no_exports]"
        and after="[(users_new, [fragment_of ''new'' no_exports])]", OF before par]
    before lit par
  show ?thesis by (simp add: u)
qed

subsection \<open>C7\<close>

text \<open>
  C7. The merged headers of a document response are the initial collection followed by
  what each fragment of the chain contributes, outermost fragment first: the non-null
  entries its \<^verbatim>\<open>headers\<close> function (when present) gives for the fragment's own loader
  result. Every entry is appended and none is replaced: when two fragments emit the same
  header name, both values stand in the final headers, the outer fragment's before the
  inner one's. The first part is \<^verbatim>\<open>mergeFragmentHeaders\<close> on any collection and any
  loader results, the second is the response \<^verbatim>\<open>routeResponse\<close> composes.
\<close>

theorem merged_headers_append_in_chain_order:
  "(mergeFragmentHeaders init ctx fragments loaders = Ok hs \<and> length loaders = length fragments
      \<longrightarrow> hs = init @ concat (map2 (emitted ctx) fragments loaders)
        \<and> (\<forall>i j k v w. i < j \<and> j < length fragments
              \<and> (k, v) \<in> set (emitted ctx (fragments ! i) (loaders ! i))
              \<and> (k, w) \<in> set (emitted ctx (fragments ! j) (loaders ! j))
            \<longrightarrow> (\<exists>a b c. hs = init @ a @ (k, v) # b @ (k, w) # c)))
   \<and> (routeResponse tr fragments ctx = Ok r
      \<longrightarrow> (\<exists>loaders'.
            list_all2 (\<lambda>f v. \<exists>t. call_loader ctx f = Returns (Settles t (Inr v))) fragments loaders'
            \<and> resp_headers r =
                (''Content-Type'', ''text/html'') # concat (map2 (emitted ctx) fragments loaders')))"
proof (intro conjI impI allI)
  assume a: "mergeFragmentHeaders init ctx fragments loaders = Ok hs \<and> length loaders = length fragments"
  then show eq: "hs = init @ concat (map2 (emitted ctx) fragments loaders)"
    by (simp add: mergeFragmentHeaders_Ok)
  fix i j k v w
  assume b: "i < j \<and> j < length fragments
              \<and> (k, v) \<in> set (emitted ctx (fragments ! i) (loaders ! i))
              \<and> (k, w) \<in> set (emitted ctx (fragments ! j) (loaders ! j))"
  let ?xs = "map2 (emitted ctx) fragments loaders"
  from a b have "i < j" "j < length ?xs" "(k, v) \<in> set (?xs ! i)" "(k, w) \<in> set (?xs ! j)"
    by simp_all
  from concat_two[OF this] eq show "\<exists>a b c. hs = init @ a @ (k, v) # b @ (k, w) # c"
    by auto
next
  assume "routeResponse tr fragments ctx = Ok r"
  then obtain loaders hs' node where l: "run_loaders fragments ctx = Ok loaders"
    and m: "mergeFragmentHeaders [(''Content-Type'', ''text/html'')] ctx fragments loaders = Ok hs'"
    and r: "resp_headers r = hs'"
    by (auto simp: routeResponse_Ok_iff)
  from run_loaders_Ok[OF l]
  have l2: "list_all2 (\<lambda>f v. \<exists>t. call_loader ctx f = Returns (Settles t (Inr v))) fragments loaders" .
  then have "length loaders = length fragments" by (simp add: list_all2_lengthD)
  from mergeFragmentHeaders_Ok[OF m this] r l2
  show "\<exists>loaders'.
            list_all2 (\<lambda>f v. \<exists>t. call_loader ctx f = Returns (Settles t (Inr v))) fragments loaders'
            \<and> resp_headers r =
                (''Content-Type'', ''text/html'') # concat (map2 (emitted ctx) fragments loaders')"
    by auto
qed

text \<open>
  Both fragments of the example chain emit a \<^verbatim>\<open>Set-Cookie\<close> header made from their own
  loader result; both are in the response, in chain order, after the content type.
\<close>

theorem merged_headers_append_in_chain_order_witness:
  "mergeFragmentHeaders [(''Content-Type'', ''text/html'')] page_ctx document_chain
       [Data ''site'', Data ''page'']
     = Ok [(''Content-Type'', ''text/html''), (''Set-Cookie'', ''from=site''),
           (''Set-Cookie'', ''from=page'')]
   \<and> (\<exists>a b c. [(''Content-Type'', ''text/html''), (''Set-Cookie'', ''from=site''),
                (''Set-Cookie'', ''from=page'')]
        = [(''Content-Type'', ''text/html'')] @ a @ (''Set-Cookie'', ''from=site'') # b
            @ (''Set-Cookie'', ''from=page'') # c)
   \<and> (\<exists>r loaders'. routeResponse good_client document_chain page_ctx = Ok r
        \<and> list_all2 (\<lambda>f v. \<exists>t. call_loader page_ctx f = Returns (Settles t (Inr v)))
              document_chain loaders'
        \<and> resp_headers r = (''Content-Type'', ''text/html'')
              # concat (map2 (emitted page_ctx) document_chain loaders'))"
proof -
  let ?hs = "[(''Content-Type'', ''text/html''), (''Set-Cookie'', ''from=site''),
              (''Set-Cookie'', ''from=page'')]"
  let ?r = "\<lparr>status = 200, resp_headers = ?hs,
         body = Stream_body
           \<lparr>written = [preamble, ''<html>'', ''<main>'', [], ''</main>'', ''</html>''],
            chan_state = Closed, close_calls = 1\<rparr>\<rparr> :: string response"
  note inst = merged_headers_append_in_chain_order[of "[(''Content-Type'', ''text/html'')]"
      page_ctx document_chain "[Data ''site'', Data ''page'']" ?hs good_client ?r]
  have m: "mergeFragmentHeaders [(''Content-Type'', ''text/html'')] page_ctx document_chain
       [Data ''site'', Data ''page''] = Ok ?hs"
    by (simp add: mergeFragmentHeaders_def document_chain_def fragment_of_def doc_module_def
        page_module_def at_index_def append_header_def cookie_def)
  have len: "length [Data ''site'', Data ''page''] = length document_chain"
    by (simp add: document_chain_def)
  have e0: "(''Set-Cookie'', ''from=site'')
      \<in> set (emitted page_ctx (document_chain ! 0) ([Data ''site'', Data ''page''] ! 0))"
    by (simp add: emitted_def document_chain_def fragment_of_def doc_module_def cookie_def)
  have e1: "(''Set-Cookie'', ''from=page'')
      \<in> set (emitted page_ctx (document_chain ! 1) ([Data ''site'', Data ''page''] ! 1))"
    by (simp add: emitted_def document_chain_def fragment_of_def page_module_def cookie_def)
  have j: "(0::nat) < 1 \<and> 1 < length document_chain" by (simp add: document_chain_def)
  from inst m len e0 e1 j
  have two: "\<exists>a b c. ?hs = [(''Content-Type'', ''text/html'')] @ a @ (''Set-Cookie'', ''from=site'') # b
            @ (''Set-Cookie'', ''from=page'') # c"
    by blast
  from inst document_chain_response
  have three: "\<exists>loaders'.
        list_all2 (\<lambda>f v. \<exists>t. call_loader page_ctx f = Returns (Settles t (Inr v)))
              document_chain loaders'
        \<and> resp_headers ?r = (''Content-Type'', ''text/html'')
              # concat (map2 (emitted page_ctx) document_chain loaders')"
    by blast
  from m two three document_chain_response show ?thesis by blast
qed

subsection \<open>C8\<close>




subsection \<open>C9\<close>

text \<open>
  C9. For every document response \<^verbatim>\<open>routeResponse\<close> dispatches, the preamble
  \<^verbatim>\<open><!doctype html>\<close> is written to the response channel before any fragment content:
  the channel holds the preamble followed by the chunks read from the composed node, cut
  off after as many writes as the client takes. So what the channel holds is always a
  prefix of the preamble followed by the chunks of the node, and unless the client takes
  no write at all, the preamble is there, first, and only chunks of the node come after
  it, whatever the loaders and the rendering did before.
\<close>

theorem preamble_written_first:
  assumes "routeResponse tr fragments ctx = Ok r"
  shows "\<exists>loaders node ch. run_loaders fragments ctx = Ok loaders
           \<and> reduceRight fragments 0 loaders (into (Of_string [])) = Inr node
           \<and> body r = Stream_body ch
           \<and> written ch =
               (case accepts tr of
                  None \<Rightarrow> ''<!doctype html>'' # queue (toReadableStream (dequeued tr) node)
                | Some n \<Rightarrow>
                    take n (''<!doctype html>'' # queue (toReadableStream (dequeued tr) node)))
           \<and> prefix (written ch) (''<!doctype html>'' # chunks node)
           \<and> (accepts tr \<noteq> Some 0 \<longrightarrow>
                (\<exists>ys. written ch = ''<!doctype html>'' # ys \<and> prefix ys (chunks node)))"
proof -
  from assms obtain loaders hs node where l: "run_loaders fragments ctx = Ok loaders"
    and n: "reduceRight fragments 0 loaders (into (Of_string [])) = Inr node"
    and r: "r = \<lparr>status = 200, resp_headers = hs,
               body = Stream_body (snd (startStreaming (accepts tr)
                  (toReadableStream (dequeued tr) node) new_channel))\<rparr>"
    by (auto simp: routeResponse_Ok_iff)
  let ?rd = "toReadableStream (dequeued tr) node"
  let ?ch = "snd (startStreaming (accepts tr) ?rd new_channel)"
  let ?W = "''<!doctype html>'' # queue ?rd"
  have w: "written ?ch = (case accepts tr of None \<Rightarrow> ?W | Some n \<Rightarrow> take n ?W)"
    unfolding startStreaming_written[of "accepts tr" ?rd] preamble_def ..
  have q: "prefix (queue ?rd) (chunks node)" by (rule queue_prefix)
  have p: "prefix (written ?ch) (''<!doctype html>'' # chunks node)"
  proof -
    have "prefix (written ?ch) ?W" unfolding w by (simp add: take_is_prefix split: option.splits)
    moreover from q have "prefix ?W (''<!doctype html>'' # chunks node)" by simp
    ultimately show ?thesis by (rule prefix_order.trans)
  qed
  have f: "\<exists>ys. written ?ch = ''<!doctype html>'' # ys \<and> prefix ys (chunks node)"
    if "accepts tr \<noteq> Some 0"
  proof (cases "accepts tr")
    case None
    with w q show ?thesis by simp
  next
    case (Some k)
    with that obtain j where k: "k = Suc j" by (cases k) auto
    have "prefix (take j (queue ?rd)) (queue ?rd)" by (rule take_is_prefix)
    from this q have "prefix (take j (queue ?rd)) (chunks node)" by (rule prefix_order.trans)
    with w Some k show ?thesis by simp
  qed
  from l n r w p f show ?thesis by simp
qed

text \<open>
  The client of the example breaks off after two writes: the preamble and the first
  chunk of the document are what it got.
\<close>

theorem preamble_written_first_witness:
  "\<exists>hs. routeResponse \<lparr>accepts = Some 2, dequeued = 0\<rparr> document_chain page_ctx =
          Ok \<lparr>status = 200, resp_headers = hs,
              body = Stream_body
                \<lparr>written = [''<!doctype html>'', ''<html>''], chan_state = Errored,
                 close_calls = 1\<rparr>\<rparr>
     \<and> [''<!doctype html>'', ''<html>'']
         = take 2 (''<!doctype html>'' # [''<html>'', ''<main>'', [], ''</main>'', ''</html>''])
     \<and> prefix [''<html>''] [''<html>'', ''<main>'', [], ''</main>'', ''</html>'']"
  using preamble_written_first[OF document_chain_cut]
  by (simp add: document_chain_cut[unfolded preamble_def] document_chain_loaders
      document_chain_node)

subsection \<open>C10\<close>

text \<open>
  C10. A request that carries the \<^verbatim>\<open>fx-request\<close> header and matches a chain of exactly
  one fragment gets a 404 response: the chain without its outermost fragment is empty,
  there is no leaf module, and none of the three dispatch branches applies. Nothing is
  logged.
\<close>

theorem handle_partial_single_fragment_404:
  assumes "match_routes routes (url req) = Some ([f], groups)"
      and "has_header (req_headers req) ''fx-request''"
  shows "handle routes tr req args = Some (null_response 404, [])"
  using assms by (simp add: handle_def leaf_of_def)

text \<open>
  The only fragment of the chain has a component; with the header the answer is 404.
\<close>

theorem handle_partial_single_fragment_404_witness:
  "handle [(users_new, [fragment_of ''doc'' (no_exports\<lparr>default_export := Some (wrap ''html'')\<rparr>)])]
     good_client (partial_request ''/users/new'') () = Some (null_response 404, [])"
  using handle_partial_single_fragment_404[of
      "[(users_new, [fragment_of ''doc'' (no_exports\<lparr>default_export := Some (wrap ''html'')\<rparr>)])]"
      "partial_request ''/users/new''"
      "fragment_of ''doc'' (no_exports\<lparr>default_export := Some (wrap ''html'')\<rparr>)" "[]"
      good_client "()"]
  by (simp add: users_new_def partial_request_def has_header_def)


end
